theory Spec2Isabelle
  imports Complex_Main "HOL-Library.Monad_Syntax"
begin

section \<open>Numeric core of OpenModes: \<^verbatim>\<open>core_cython.pyx\<close>\<close>

text \<open>
  The module holds the face-to-RWG converter \<^verbatim>\<open>triangle_face_to_rwg\<close>, the plane-wave
  source integrator \<^verbatim>\<open>source_integral_plane_wave\<close> with its helpers \<^verbatim>\<open>cexp\<close> and
  \<^verbatim>\<open>dot_product_complex_real\<close>, and the excitation-vector assembler
  \<^verbatim>\<open>voltage_plane_wave\<close>.

  Conventions of the embedding.
  \<^item> A C \<^verbatim>\<open>double\<close> is a \<^typ>\<open>real\<close> and a \<^verbatim>\<open>double complex\<close> is a \<^typ>\<open>complex\<close>:
    arithmetic is exact, so rounding, overflow to infinity and NaN are outside this model.
    Where an exact output is at stake that an overflow spoils, the integrator and the
    assembler are embedded a second time, over doubles with overflow (the type \<open>dbl\<close>):
    there a double is a finite real or one of \<open>+inf\<close>, \<open>-inf\<close> and NaN.
  \<^item> An index held in an \<^verbatim>\<open>int[:]\<close> array is an \<^typ>\<open>int\<close>; loop counters are \<^typ>\<open>nat\<close>.
  \<^item> A one-dimensional memoryview is the list of its cells; its \<^verbatim>\<open>shape[0]\<close> is the
    length of the list. A memoryview of higher rank is an \<open>ndarray\<close>: its shape and its
    cells in row-major (C-contiguous) order, the layout \<^verbatim>\<open>np.zeros\<close> and \<^verbatim>\<open>np.empty\<close> give.
    The converter accepts views that are not contiguous as well; it is embedded a second
    time over strided views (the type \<open>memview\<close>), of which a contiguous array is the
    instance with row-major strides.
  \<^item> Every function of the module is compiled with \<^verbatim>\<open>boundscheck(False)\<close> and
    \<^verbatim>\<open>wraparound(False)\<close>: an indexing expression is plain address arithmetic. The cell
    read is the one at the address of the index tuple, whether or not each index is within
    its dimension, and a negative index is not wrapped; in a contiguous array that address
    is the row-major offset. An access whose address leaves the buffer has no defined
    behaviour in C; the model gives it the value \<open>None\<close>, and the whole computation is
    \<open>None\<close> from there on.
\<close>

subsection \<open>Memoryviews with unchecked indexing\<close>

record 'a ndarray =
  shape :: "nat list"
  buf :: "'a list"

definition offset :: "nat list \<Rightarrow> int list \<Rightarrow> int" where
  "offset shp idx = foldl (\<lambda>acc (n, i). acc * int n + i) 0 (zip shp idx)"

definition load :: "'a list \<Rightarrow> int \<Rightarrow> 'a option" where
  "load xs i = (if 0 \<le> i \<and> i < int (length xs) then Some (xs ! nat i) else None)"

definition store :: "'a list \<Rightarrow> int \<Rightarrow> 'a \<Rightarrow> 'a list option" where
  "store xs i v = (if 0 \<le> i \<and> i < int (length xs) then Some (xs[nat i := v]) else None)"

definition getitem :: "'a ndarray \<Rightarrow> int list \<Rightarrow> 'a option" where
  "getitem a idx = load (buf a) (offset (shape a) idx)"

definition setitem :: "'a ndarray \<Rightarrow> int list \<Rightarrow> 'a \<Rightarrow> 'a ndarray option" where
  "setitem a idx v = map_option (\<lambda>b. a\<lparr>buf := b\<rparr>) (store (buf a) (offset (shape a) idx) v)"

text \<open>
  \<^verbatim>\<open>np.empty\<close> and \<^verbatim>\<open>malloc\<close> return uninitialised memory: the cells are whatever the
  allocator hands out, given here as a parameter \<open>mem\<close> of the allocation.
  \<^verbatim>\<open>np.zeros\<close> clears it.
\<close>

definition np_empty :: "nat list \<Rightarrow> (nat \<Rightarrow> 'a) \<Rightarrow> 'a ndarray" where
  "np_empty shp mem = \<lparr>shape = shp, buf = map mem [0..<prod_list shp]\<rparr>"

definition np_zeros :: "nat list \<Rightarrow> ('a::zero) ndarray" where
  "np_zeros shp = \<lparr>shape = shp, buf = replicate (prod_list shp) 0\<rparr>"

text \<open>
  The views \<^verbatim>\<open>a[i, :]\<close> and \<^verbatim>\<open>a[i, :, :]\<close>: the cells of the \<open>i\<close>-th block along the
  first axis, and the array after a callee has overwritten that block through the view.
\<close>

definition subarray :: "'a ndarray \<Rightarrow> nat \<Rightarrow> 'a ndarray" where
  "subarray a i =
     (let inner = prod_list (tl (shape a))
      in \<lparr>shape = tl (shape a), buf = take inner (drop (i * inner) (buf a))\<rparr>)"

definition write_back :: "'a ndarray \<Rightarrow> nat \<Rightarrow> 'a list \<Rightarrow> 'a ndarray" where
  "write_back a i cells =
     (let inner = prod_list (tl (shape a))
      in a\<lparr>buf := take (i * inner) (buf a) @ cells @ drop (i * inner + inner) (buf a)\<rparr>)"

text \<open>
  A \<^verbatim>\<open>for\<close> loop over a list of iteration indices, threading the loop state and
  stopping at the first undefined access.
\<close>

fun for_loop :: "nat list \<Rightarrow> (nat \<Rightarrow> 's \<Rightarrow> 's option) \<Rightarrow> 's \<Rightarrow> 's option" where
  "for_loop [] body s = Some s"
| "for_loop (i # is) body s = Option.bind (body i s) (for_loop is body)"

subsection \<open>The complex exponential and the dot product\<close>

text \<open>
  \<^verbatim>\<open>return exp(creal(z))*(cos(cimag(z)) + _Complex_I*sin(cimag(z)))\<close>, where
  \<^verbatim>\<open>exp\<close>, \<^verbatim>\<open>cos\<close> and \<^verbatim>\<open>sin\<close> are the real functions of \<^verbatim>\<open>libc.math\<close>.
\<close>

definition cexp :: "complex \<Rightarrow> complex" where
  "cexp z = complex_of_real (exp (Re z)) *
     (complex_of_real (cos (Im z)) + \<i> * complex_of_real (sin (Im z)))"

text \<open>
  \<^verbatim>\<open>dot_product_complex_real(length, a, b)\<close> receives two bare pointers and accumulates
  \<^verbatim>\<open>a[counter]*b[counter]\<close> from \<open>0.0\<close>.
\<close>

definition dot_product_complex_real :: "nat \<Rightarrow> complex list \<Rightarrow> real list \<Rightarrow> complex option" where
  "dot_product_complex_real len a b =
     for_loop [0..<len] (\<lambda>counter result. do {
         x \<leftarrow> load a (int counter);
         y \<leftarrow> load b (int counter);
         Some (result + x * complex_of_real y)
       }) 0"

subsection \<open>The face-to-RWG converter\<close>

text \<open>
  The body of the inner loop (one source basis function \<open>n\<close>), the body of the outer loop
  (one observer basis function \<open>m\<close>) and the function itself. The two output matrices
  are allocated with \<^verbatim>\<open>np.empty\<close>; \<open>mem_v\<close> and \<open>mem_s\<close> are the memory they receive.
\<close>

definition rwg_cell ::
  "int list \<Rightarrow> int list \<Rightarrow> int list \<Rightarrow> int list \<Rightarrow> complex ndarray \<Rightarrow> complex ndarray \<Rightarrow>
   nat \<Rightarrow> int \<Rightarrow> int \<Rightarrow> int \<Rightarrow> int \<Rightarrow> nat \<Rightarrow>
   complex ndarray \<times> complex ndarray \<Rightarrow> (complex ndarray \<times> complex ndarray) option" where
  "rwg_cell basis_tri_p basis_tri_m basis_node_p basis_node_m vector_face scalar_face
      m p_p p_m ip_p ip_m n = (\<lambda>(vector_rwg, scalar_rwg). do {
     q_p \<leftarrow> load basis_tri_p (int n);
     q_m \<leftarrow> load basis_tri_m (int n);
     iq_p \<leftarrow> load basis_node_p (int n);
     iq_m \<leftarrow> load basis_node_m (int n);
     v1 \<leftarrow> getitem vector_face [p_p, q_p, ip_p, iq_p];
     v2 \<leftarrow> getitem vector_face [p_p, q_m, ip_p, iq_m];
     v3 \<leftarrow> getitem vector_face [p_m, q_p, ip_m, iq_p];
     v4 \<leftarrow> getitem vector_face [p_m, q_m, ip_m, iq_m];
     vector_rwg \<leftarrow> setitem vector_rwg [int m, int n] (v1 - v2 - v3 + v4);
     s1 \<leftarrow> getitem scalar_face [p_m, q_p];
     s2 \<leftarrow> getitem scalar_face [p_m, q_m];
     s3 \<leftarrow> getitem scalar_face [p_p, q_p];
     s4 \<leftarrow> getitem scalar_face [p_p, q_m];
     scalar_rwg \<leftarrow> setitem scalar_rwg [int m, int n] (- s1 + s2 + s3 - s4);
     Some (vector_rwg, scalar_rwg)
   })"

definition rwg_row ::
  "int list \<Rightarrow> int list \<Rightarrow> int list \<Rightarrow> int list \<Rightarrow> complex ndarray \<Rightarrow> complex ndarray \<Rightarrow>
   nat \<Rightarrow> nat \<Rightarrow> complex ndarray \<times> complex ndarray \<Rightarrow> (complex ndarray \<times> complex ndarray) option" where
  "rwg_row basis_tri_p basis_tri_m basis_node_p basis_node_m vector_face scalar_face
      num_basis m st = do {
     p_p \<leftarrow> load basis_tri_p (int m);
     p_m \<leftarrow> load basis_tri_m (int m);
     ip_p \<leftarrow> load basis_node_p (int m);
     ip_m \<leftarrow> load basis_node_m (int m);
     for_loop [0..<num_basis]
       (rwg_cell basis_tri_p basis_tri_m basis_node_p basis_node_m vector_face scalar_face
          m p_p p_m ip_p ip_m) st
   }"

definition triangle_face_to_rwg ::
  "(nat \<Rightarrow> complex) \<Rightarrow> (nat \<Rightarrow> complex) \<Rightarrow>
   int list \<Rightarrow> int list \<Rightarrow> int list \<Rightarrow> int list \<Rightarrow> complex ndarray \<Rightarrow> complex ndarray \<Rightarrow>
   (complex ndarray \<times> complex ndarray) option" where
  "triangle_face_to_rwg mem_v mem_s basis_tri_p basis_tri_m basis_node_p basis_node_m
      vector_face scalar_face =
    (let num_basis = length basis_tri_p;
         vector_rwg = np_empty [num_basis, num_basis] mem_v;
         scalar_rwg = np_empty [num_basis, num_basis] mem_s
     in for_loop [0..<num_basis]
          (rwg_row basis_tri_p basis_tri_m basis_node_p basis_node_m vector_face scalar_face
             num_basis)
          (vector_rwg, scalar_rwg))"

subsection \<open>The face-to-RWG converter over strided views\<close>

text \<open>
  An argument declared \<^verbatim>\<open>complex[:, :, :, :]\<close> or \<^verbatim>\<open>int[:]\<close> need not be contiguous: a view
  has, for each axis, an extent and a stride, and an origin in the buffer of the array it
  views (strides and origin counted in cells). With bounds checks off, \<^verbatim>\<open>a[i0, ..., ik]\<close>
  reads the cell of that buffer at the address \<open>origin + i0 * stride0 + ... + ik * stridek\<close>,
  for any integers \<open>i0, ..., ik\<close>.
\<close>

record 'a memview =
  extent :: "nat list"
  stride :: "int list"
  origin :: int
  memory :: "'a list"

definition address :: "'a memview \<Rightarrow> int list \<Rightarrow> int" where
  "address v idx = origin v + sum_list (map2 (*) idx (stride v))"

definition peek :: "'a memview \<Rightarrow> int list \<Rightarrow> 'a option" where
  "peek v idx = load (memory v) (address v idx)"

text \<open>
  The converter again, every read of an argument going through the strides of its view.
  The two outputs are fresh \<^verbatim>\<open>np.empty\<close> arrays, which are contiguous.
\<close>

definition rwg_cell_view ::
  "int memview \<Rightarrow> int memview \<Rightarrow> int memview \<Rightarrow> int memview \<Rightarrow>
   complex memview \<Rightarrow> complex memview \<Rightarrow>
   nat \<Rightarrow> int \<Rightarrow> int \<Rightarrow> int \<Rightarrow> int \<Rightarrow> nat \<Rightarrow>
   complex ndarray \<times> complex ndarray \<Rightarrow> (complex ndarray \<times> complex ndarray) option" where
  "rwg_cell_view basis_tri_p basis_tri_m basis_node_p basis_node_m vector_face scalar_face
      m p_p p_m ip_p ip_m n = (\<lambda>(vector_rwg, scalar_rwg). do {
     q_p \<leftarrow> peek basis_tri_p [int n];
     q_m \<leftarrow> peek basis_tri_m [int n];
     iq_p \<leftarrow> peek basis_node_p [int n];
     iq_m \<leftarrow> peek basis_node_m [int n];
     v1 \<leftarrow> peek vector_face [p_p, q_p, ip_p, iq_p];
     v2 \<leftarrow> peek vector_face [p_p, q_m, ip_p, iq_m];
     v3 \<leftarrow> peek vector_face [p_m, q_p, ip_m, iq_p];
     v4 \<leftarrow> peek vector_face [p_m, q_m, ip_m, iq_m];
     vector_rwg \<leftarrow> setitem vector_rwg [int m, int n] (v1 - v2 - v3 + v4);
     s1 \<leftarrow> peek scalar_face [p_m, q_p];
     s2 \<leftarrow> peek scalar_face [p_m, q_m];
     s3 \<leftarrow> peek scalar_face [p_p, q_p];
     s4 \<leftarrow> peek scalar_face [p_p, q_m];
     scalar_rwg \<leftarrow> setitem scalar_rwg [int m, int n] (- s1 + s2 + s3 - s4);
     Some (vector_rwg, scalar_rwg)
   })"

definition rwg_row_view ::
  "int memview \<Rightarrow> int memview \<Rightarrow> int memview \<Rightarrow> int memview \<Rightarrow>
   complex memview \<Rightarrow> complex memview \<Rightarrow>
   nat \<Rightarrow> nat \<Rightarrow> complex ndarray \<times> complex ndarray \<Rightarrow> (complex ndarray \<times> complex ndarray) option" where
  "rwg_row_view basis_tri_p basis_tri_m basis_node_p basis_node_m vector_face scalar_face
      num_basis m st = do {
     p_p \<leftarrow> peek basis_tri_p [int m];
     p_m \<leftarrow> peek basis_tri_m [int m];
     ip_p \<leftarrow> peek basis_node_p [int m];
     ip_m \<leftarrow> peek basis_node_m [int m];
     for_loop [0..<num_basis]
       (rwg_cell_view basis_tri_p basis_tri_m basis_node_p basis_node_m vector_face scalar_face
          m p_p p_m ip_p ip_m) st
   }"

definition triangle_face_to_rwg_view ::
  "(nat \<Rightarrow> complex) \<Rightarrow> (nat \<Rightarrow> complex) \<Rightarrow>
   int memview \<Rightarrow> int memview \<Rightarrow> int memview \<Rightarrow> int memview \<Rightarrow>
   complex memview \<Rightarrow> complex memview \<Rightarrow> (complex ndarray \<times> complex ndarray) option" where
  "triangle_face_to_rwg_view mem_v mem_s basis_tri_p basis_tri_m basis_node_p basis_node_m
      vector_face scalar_face =
    (let num_basis = extent basis_tri_p ! 0;
         vector_rwg = np_empty [num_basis, num_basis] mem_v;
         scalar_rwg = np_empty [num_basis, num_basis] mem_s
     in for_loop [0..<num_basis]
          (rwg_row_view basis_tri_p basis_tri_m basis_node_p basis_node_m vector_face scalar_face
             num_basis)
          (vector_rwg, scalar_rwg))"

text \<open>
  The contiguous views: \<open>contiguous_view a\<close> views the whole of a row-major array, with
  the strides of that layout, and \<open>list_view xs\<close> a one-dimensional array.
\<close>

definition c_strides :: "nat list \<Rightarrow> int list" where
  "c_strides shp = map (\<lambda>k. int (prod_list (drop (Suc k) shp))) [0..<length shp]"

definition contiguous_view :: "'a ndarray \<Rightarrow> 'a memview" where
  "contiguous_view a = \<lparr>extent = shape a, stride = c_strides (shape a), origin = 0, memory = buf a\<rparr>"

definition list_view :: "'a list \<Rightarrow> 'a memview" where
  "list_view xs = \<lparr>extent = [length xs], stride = [1], origin = 0, memory = xs\<rparr>"

subsection \<open>The source integrator\<close>

text \<open>
  The body of the loop over quadrature points, and the function. The local arrays
  \<^verbatim>\<open>r_o\<close>, \<^verbatim>\<open>rho_o\<close> and \<^verbatim>\<open>e_r\<close> are filled cell by cell by loops over \<^verbatim>\<open>range(3)\<close>;
  the output \<^verbatim>\<open>I\<close> is a view the caller supplies, cleared by \<^verbatim>\<open>I[:] = 0.0\<close> and then
  accumulated into.
\<close>

definition source_integral_point ::
  "real ndarray \<Rightarrow> real list \<Rightarrow> real ndarray \<Rightarrow> complex list \<Rightarrow> complex list \<Rightarrow>
   nat \<Rightarrow> complex list \<Rightarrow> complex list option" where
  "source_integral_point xi_eta_o weights_o nodes_o jk_inc e_inc count_o I = do {
     w_o \<leftarrow> load weights_o (int count_o);
     xi_o \<leftarrow> getitem xi_eta_o [int count_o, 0];
     eta_o \<leftarrow> getitem xi_eta_o [int count_o, 1];
     let zeta_o = 1 - eta_o - xi_o;
     r_o \<leftarrow> those (map (\<lambda>index_a. do {
              n0 \<leftarrow> getitem nodes_o [0, int index_a];
              n1 \<leftarrow> getitem nodes_o [1, int index_a];
              n2 \<leftarrow> getitem nodes_o [2, int index_a];
              Some (xi_o * n0 + eta_o * n1 + zeta_o * n2)
            }) [0..<3]);
     rho_o \<leftarrow> those (map (\<lambda>index_a. those (map (\<lambda>index_b. do {
              n \<leftarrow> getitem nodes_o [int index_a, int index_b];
              Some (r_o ! index_b - n)
            }) [0..<3])) [0..<3]);
     jkr \<leftarrow> dot_product_complex_real 3 jk_inc r_o;
     let exp_jkr = cexp (- jkr);
     e_r \<leftarrow> those (map (\<lambda>index_a. do {
              e \<leftarrow> load e_inc (int index_a);
              Some (exp_jkr * e)
            }) [0..<3]);
     for_loop [0..<3] (\<lambda>index_a I. do {
         d \<leftarrow> dot_product_complex_real 3 e_r (rho_o ! index_a);
         cur \<leftarrow> load I (int index_a);
         store I (int index_a) (cur + d * complex_of_real w_o)
       }) I
   }"

definition source_integral_plane_wave ::
  "real ndarray \<Rightarrow> real list \<Rightarrow> real ndarray \<Rightarrow> complex list \<Rightarrow> complex list \<Rightarrow>
   complex list \<Rightarrow> complex list option" where
  "source_integral_plane_wave xi_eta_o weights_o nodes_o jk_inc e_inc I =
     (let n_o = shape xi_eta_o ! 0;
          I = replicate (length I) 0
      in for_loop [0..<n_o] (source_integral_point xi_eta_o weights_o nodes_o jk_inc e_inc) I)"

subsection \<open>The excitation-vector assembler\<close>

text \<open>
  What the OpenMP runtime decides in one run: the number of threads
  (\<^verbatim>\<open>omp_get_max_threads()\<close>), the thread that runs each iteration of the first
  \<^verbatim>\<open>prange\<close> (\<^verbatim>\<open>omp_get_thread_num()\<close>), the order in which the iterations of the two
  \<^verbatim>\<open>prange\<close> loops take effect, and the content of the block \<^verbatim>\<open>malloc\<close> returns.
  Iterations are taken one at a time: a thread runs its iterations one after another and
  owns its scratch slot, so interleaving inside iterations of different threads touches
  disjoint cells.
\<close>

record omp_env =
  n_threads :: nat
  thread_num :: "nat \<Rightarrow> nat"
  order_p :: "nat \<Rightarrow> nat"
  order_m :: "nat \<Rightarrow> nat"
  malloc_mem :: "nat \<Rightarrow> real"

text \<open>
  The copy of the three nodes of triangle \<open>p\<close> into the scratch slot of the running
  thread, the body of the first \<^verbatim>\<open>prange\<close> (one triangle), the body of the second (one
  basis function), and the function.
\<close>

definition gather_nodes ::
  "real ndarray \<Rightarrow> int ndarray \<Rightarrow> nat \<Rightarrow> nat \<Rightarrow> real ndarray \<Rightarrow> real ndarray option" where
  "gather_nodes nodes triangle_nodes thread_id p nodes_p =
     for_loop [0..<3] (\<lambda>m. for_loop [0..<3] (\<lambda>q nodes_p. do {
         which_node \<leftarrow> getitem triangle_nodes [int p, int m];
         x \<leftarrow> getitem nodes [which_node, int q];
         setitem nodes_p [int thread_id, int m, int q] x
       })) nodes_p"

definition voltage_face ::
  "real ndarray \<Rightarrow> int ndarray \<Rightarrow> real ndarray \<Rightarrow> real list \<Rightarrow> complex list \<Rightarrow> complex list \<Rightarrow>
   nat \<Rightarrow> nat \<Rightarrow> real ndarray \<times> complex ndarray \<Rightarrow> (real ndarray \<times> complex ndarray) option" where
  "voltage_face nodes triangle_nodes xi_eta_eval weights e_inc jk_inc thread_id p =
     (\<lambda>(nodes_p, V_face). do {
        nodes_p \<leftarrow> gather_nodes nodes triangle_nodes thread_id p nodes_p;
        I \<leftarrow> source_integral_plane_wave xi_eta_eval weights (subarray nodes_p thread_id)
               jk_inc e_inc (buf (subarray V_face p));
        Some (nodes_p, write_back V_face p I)
      })"

definition voltage_basis ::
  "int list \<Rightarrow> int list \<Rightarrow> int list \<Rightarrow> int list \<Rightarrow> complex ndarray \<Rightarrow>
   nat \<Rightarrow> complex list \<Rightarrow> complex list option" where
  "voltage_basis basis_tri_p basis_tri_m basis_node_p basis_node_m V_face m V = do {
     p_p \<leftarrow> load basis_tri_p (int m);
     p_m \<leftarrow> load basis_tri_m (int m);
     ip_p \<leftarrow> load basis_node_p (int m);
     ip_m \<leftarrow> load basis_node_m (int m);
     a \<leftarrow> getitem V_face [p_p, ip_p];
     b \<leftarrow> getitem V_face [p_m, ip_m];
     store V (int m) (a - b)
   }"

definition voltage_plane_wave ::
  "omp_env \<Rightarrow> real ndarray \<Rightarrow> int ndarray \<Rightarrow> int list \<Rightarrow> int list \<Rightarrow> int list \<Rightarrow> int list \<Rightarrow>
   real ndarray \<Rightarrow> real list \<Rightarrow> complex list \<Rightarrow> complex list \<Rightarrow> complex list option" where
  "voltage_plane_wave env nodes triangle_nodes basis_tri_p basis_tri_m basis_node_p basis_node_m
      xi_eta_eval weights e_inc jk_inc =
    (let num_triangles = shape triangle_nodes ! 0;
         num_basis = length basis_tri_p;
         V = replicate num_basis 0;
         V_face = np_zeros [num_triangles, 3];
         nodes_p = np_empty [n_threads env, 3, 3] (malloc_mem env)
     in do {
       (nodes_p, V_face) \<leftarrow>
         for_loop (map (order_p env) [0..<num_triangles])
           (\<lambda>p. voltage_face nodes triangle_nodes xi_eta_eval weights e_inc jk_inc
                  (thread_num env p) p)
           (nodes_p, V_face);
       for_loop (map (order_m env) [0..<num_basis])
         (voltage_basis basis_tri_p basis_tri_m basis_node_p basis_node_m V_face) V
     })"

subsection \<open>Doubles with overflow\<close>

text \<open>
  A double is a finite real or one of the special values \<open>+inf\<close>, \<open>-inf\<close> and NaN. An
  operation on finite values gives the exact result when its magnitude is at most
  \<open>dbl_max\<close>, the largest finite double, and an infinity beyond it; the rounding of finite
  results and the sign of zero are not modelled. The special values follow IEEE 754:
  \<open>inf - inf\<close> and \<open>0 * inf\<close> are NaN, and NaN propagates.
\<close>

datatype dbl = Fin real | PosInf | NegInf | NaN

type_synonym cdbl = "dbl \<times> dbl"

definition dbl_max :: real where
  "dbl_max = (2 - 1 / 2 ^ 52) * 2 ^ 1023"

definition overflow :: "real \<Rightarrow> dbl" where
  "overflow x = (if dbl_max < x then PosInf else if x < - dbl_max then NegInf else Fin x)"

fun is_fin :: "dbl \<Rightarrow> bool" where
  "is_fin (Fin x) = True"
| "is_fin x = False"

fun is_inf :: "dbl \<Rightarrow> bool" where
  "is_inf PosInf = True"
| "is_inf NegInf = True"
| "is_inf x = False"

fun is_nan :: "dbl \<Rightarrow> bool" where
  "is_nan NaN = True"
| "is_nan x = False"

fun dneg :: "dbl \<Rightarrow> dbl" where
  "dneg (Fin x) = Fin (- x)"
| "dneg PosInf = NegInf"
| "dneg NegInf = PosInf"
| "dneg NaN = NaN"

fun dadd :: "dbl \<Rightarrow> dbl \<Rightarrow> dbl" where
  "dadd (Fin x) (Fin y) = overflow (x + y)"
| "dadd NaN y = NaN"
| "dadd x NaN = NaN"
| "dadd PosInf NegInf = NaN"
| "dadd NegInf PosInf = NaN"
| "dadd PosInf y = PosInf"
| "dadd NegInf y = NegInf"
| "dadd x PosInf = PosInf"
| "dadd x NegInf = NegInf"

definition dsub :: "dbl \<Rightarrow> dbl \<Rightarrow> dbl" where
  "dsub x y = dadd x (dneg y)"

fun scale_inf :: "dbl \<Rightarrow> real \<Rightarrow> dbl" where
  "scale_inf PosInf y = (if y = 0 then NaN else if 0 < y then PosInf else NegInf)"
| "scale_inf NegInf y = (if y = 0 then NaN else if 0 < y then NegInf else PosInf)"
| "scale_inf x y = NaN"

fun dmul :: "dbl \<Rightarrow> dbl \<Rightarrow> dbl" where
  "dmul (Fin x) (Fin y) = overflow (x * y)"
| "dmul NaN y = NaN"
| "dmul x NaN = NaN"
| "dmul (Fin x) y = scale_inf y x"
| "dmul x (Fin y) = scale_inf x y"
| "dmul PosInf y = y"
| "dmul NegInf y = dneg y"

text \<open>
  \<^verbatim>\<open>exp\<close>, \<^verbatim>\<open>cos\<close> and \<^verbatim>\<open>sin\<close> of \<^verbatim>\<open>libc.math\<close>: \<^verbatim>\<open>exp\<close> overflows to \<open>+inf\<close>, and the
  cosine and the sine of an infinity are NaN.
\<close>

fun dexp :: "dbl \<Rightarrow> dbl" where
  "dexp (Fin x) = overflow (exp x)"
| "dexp PosInf = PosInf"
| "dexp NegInf = Fin 0"
| "dexp NaN = NaN"

fun dcos :: "dbl \<Rightarrow> dbl" where
  "dcos (Fin x) = Fin (cos x)"
| "dcos x = NaN"

fun dsin :: "dbl \<Rightarrow> dbl" where
  "dsin (Fin x) = Fin (sin x)"
| "dsin x = NaN"

text \<open>
  A \<^verbatim>\<open>double complex\<close> is the pair of its parts. \<open>creal_fp\<close> is the conversion of a double
  operand of a complex operation, \<open>cfin\<close> the conversion of a finite input. Sum,
  difference and negation act on the parts. The product is that of C: the four partial
  products \<open>ac\<close>, \<open>bd\<close>, \<open>ad\<close>, \<open>bc\<close> give \<open>(ac - bd, ad + bc)\<close>, and when both parts come
  out NaN the infinities are recovered as Annex G of the C standard prescribes
  (\<open>cmul_recover\<close>, which is \<open>None\<close> when nothing is recalculated).
\<close>

definition czero :: cdbl where
  "czero = (Fin 0, Fin 0)"

definition creal_fp :: "dbl \<Rightarrow> cdbl" where
  "creal_fp x = (x, Fin 0)"

definition cfin :: "complex \<Rightarrow> cdbl" where
  "cfin z = (Fin (Re z), Fin (Im z))"

definition cneg :: "cdbl \<Rightarrow> cdbl" where
  "cneg z = (dneg (fst z), dneg (snd z))"

definition cadd :: "cdbl \<Rightarrow> cdbl \<Rightarrow> cdbl" where
  "cadd z w = (dadd (fst z) (fst w), dadd (snd z) (snd w))"

definition csub :: "cdbl \<Rightarrow> cdbl \<Rightarrow> cdbl" where
  "csub z w = (dsub (fst z) (fst w), dsub (snd z) (snd w))"

fun unit_inf :: "dbl \<Rightarrow> dbl" where
  "unit_inf PosInf = Fin 1"
| "unit_inf NegInf = Fin (- 1)"
| "unit_inf x = Fin 0"

fun zero_nan :: "dbl \<Rightarrow> dbl" where
  "zero_nan NaN = Fin 0"
| "zero_nan x = x"

definition cmul_recover :: "cdbl \<Rightarrow> cdbl \<Rightarrow> dbl \<Rightarrow> dbl \<Rightarrow> dbl \<Rightarrow> dbl \<Rightarrow> cdbl option" where
  "cmul_recover z w ac bd ad bc =
     (let (a, b, c, d, recalc) = (fst z, snd z, fst w, snd w, False);
          (a, b, c, d, recalc) =
            (if is_inf a \<or> is_inf b
             then (unit_inf a, unit_inf b, zero_nan c, zero_nan d, True)
             else (a, b, c, d, recalc));
          (a, b, c, d, recalc) =
            (if is_inf c \<or> is_inf d
             then (zero_nan a, zero_nan b, unit_inf c, unit_inf d, True)
             else (a, b, c, d, recalc));
          (a, b, c, d, recalc) =
            (if \<not> recalc \<and> (is_inf ac \<or> is_inf bd \<or> is_inf ad \<or> is_inf bc)
             then (zero_nan a, zero_nan b, zero_nan c, zero_nan d, True)
             else (a, b, c, d, recalc))
      in if recalc
         then Some (dmul PosInf (dsub (dmul a c) (dmul b d)),
                    dmul PosInf (dadd (dmul a d) (dmul b c)))
         else None)"

definition cmul :: "cdbl \<Rightarrow> cdbl \<Rightarrow> cdbl" where
  "cmul z w =
     (let ac = dmul (fst z) (fst w); bd = dmul (snd z) (snd w);
          ad = dmul (fst z) (snd w); bc = dmul (snd z) (fst w);
          x = dsub ac bd; y = dadd ad bc
      in if is_nan x \<and> is_nan y
         then (case cmul_recover z w ac bd ad bc of Some v \<Rightarrow> v | None \<Rightarrow> (x, y))
         else (x, y))"

text \<open>
  \<^verbatim>\<open>cexp\<close> over these doubles:
  \<^verbatim>\<open>exp(creal(z))*(cos(cimag(z)) + _Complex_I*sin(cimag(z)))\<close>.
\<close>

definition cexp_fp :: "cdbl \<Rightarrow> cdbl" where
  "cexp_fp z = cmul (creal_fp (dexp (fst z)))
     (cadd (creal_fp (dcos (snd z))) (cmul (Fin 0, Fin 1) (creal_fp (dsin (snd z)))))"

subsection \<open>The integrator and the assembler over doubles with overflow\<close>

text \<open>
  The integrator and the assembler again, every arithmetic operation being that of the
  doubles with overflow. The inputs are finite doubles, converted where they are read.
  The body of the loop over quadrature points is in two parts: \<open>point_geometry_fp\<close>
  computes \<^verbatim>\<open>w_o\<close>, \<^verbatim>\<open>rho_o\<close> and \<^verbatim>\<open>exp_jkr\<close>, which do not depend on the field, and
  \<open>source_integral_point_fp\<close> goes on with \<^verbatim>\<open>e_r\<close> and the accumulation into \<^verbatim>\<open>I\<close>. The
  copy of the nodes of a triangle involves no arithmetic: \<open>gather_nodes\<close> is shared with
  the first embedding.
\<close>

definition np_zeros_fp :: "nat list \<Rightarrow> cdbl ndarray" where
  "np_zeros_fp shp = \<lparr>shape = shp, buf = replicate (prod_list shp) czero\<rparr>"

definition dot_product_fp :: "nat \<Rightarrow> cdbl list \<Rightarrow> dbl list \<Rightarrow> cdbl option" where
  "dot_product_fp len a b =
     for_loop [0..<len] (\<lambda>counter result. do {
         x \<leftarrow> load a (int counter);
         y \<leftarrow> load b (int counter);
         Some (cadd result (cmul x (creal_fp y)))
       }) (creal_fp (Fin 0))"

definition point_geometry_fp ::
  "real ndarray \<Rightarrow> real list \<Rightarrow> real ndarray \<Rightarrow> complex list \<Rightarrow> nat \<Rightarrow>
   (dbl \<times> dbl list list \<times> cdbl) option" where
  "point_geometry_fp xi_eta_o weights_o nodes_o jk_inc count_o = do {
     w_o \<leftarrow> load weights_o (int count_o);
     xi_o \<leftarrow> getitem xi_eta_o [int count_o, 0];
     eta_o \<leftarrow> getitem xi_eta_o [int count_o, 1];
     let zeta_o = dsub (dsub (Fin 1) (Fin eta_o)) (Fin xi_o);
     r_o \<leftarrow> those (map (\<lambda>index_a. do {
              n0 \<leftarrow> getitem nodes_o [0, int index_a];
              n1 \<leftarrow> getitem nodes_o [1, int index_a];
              n2 \<leftarrow> getitem nodes_o [2, int index_a];
              Some (dadd (dadd (dmul (Fin xi_o) (Fin n0)) (dmul (Fin eta_o) (Fin n1)))
                      (dmul zeta_o (Fin n2)))
            }) [0..<3]);
     rho_o \<leftarrow> those (map (\<lambda>index_a. those (map (\<lambda>index_b. do {
              n \<leftarrow> getitem nodes_o [int index_a, int index_b];
              Some (dsub (r_o ! index_b) (Fin n))
            }) [0..<3])) [0..<3]);
     jkr \<leftarrow> dot_product_fp 3 (map cfin jk_inc) r_o;
     Some (Fin w_o, rho_o, cexp_fp (cneg jkr))
   }"

definition source_integral_point_fp ::
  "real ndarray \<Rightarrow> real list \<Rightarrow> real ndarray \<Rightarrow> complex list \<Rightarrow> complex list \<Rightarrow>
   nat \<Rightarrow> cdbl list \<Rightarrow> cdbl list option" where
  "source_integral_point_fp xi_eta_o weights_o nodes_o jk_inc e_inc count_o I = do {
     (w_o, rho_o, exp_jkr) \<leftarrow> point_geometry_fp xi_eta_o weights_o nodes_o jk_inc count_o;
     e_r \<leftarrow> those (map (\<lambda>index_a. do {
              e \<leftarrow> load e_inc (int index_a);
              Some (cmul exp_jkr (cfin e))
            }) [0..<3]);
     for_loop [0..<3] (\<lambda>index_a I. do {
         d \<leftarrow> dot_product_fp 3 e_r (rho_o ! index_a);
         cur \<leftarrow> load I (int index_a);
         store I (int index_a) (cadd cur (cmul d (creal_fp w_o)))
       }) I
   }"

definition source_integral_plane_wave_fp ::
  "real ndarray \<Rightarrow> real list \<Rightarrow> real ndarray \<Rightarrow> complex list \<Rightarrow> complex list \<Rightarrow>
   cdbl list \<Rightarrow> cdbl list option" where
  "source_integral_plane_wave_fp xi_eta_o weights_o nodes_o jk_inc e_inc I =
     (let n_o = shape xi_eta_o ! 0;
          I = replicate (length I) (creal_fp (Fin 0))
      in for_loop [0..<n_o] (source_integral_point_fp xi_eta_o weights_o nodes_o jk_inc e_inc) I)"

definition voltage_face_fp ::
  "real ndarray \<Rightarrow> int ndarray \<Rightarrow> real ndarray \<Rightarrow> real list \<Rightarrow> complex list \<Rightarrow> complex list \<Rightarrow>
   nat \<Rightarrow> nat \<Rightarrow> real ndarray \<times> cdbl ndarray \<Rightarrow> (real ndarray \<times> cdbl ndarray) option" where
  "voltage_face_fp nodes triangle_nodes xi_eta_eval weights e_inc jk_inc thread_id p =
     (\<lambda>(nodes_p, V_face). do {
        nodes_p \<leftarrow> gather_nodes nodes triangle_nodes thread_id p nodes_p;
        I \<leftarrow> source_integral_plane_wave_fp xi_eta_eval weights (subarray nodes_p thread_id)
               jk_inc e_inc (buf (subarray V_face p));
        Some (nodes_p, write_back V_face p I)
      })"

definition voltage_basis_fp ::
  "int list \<Rightarrow> int list \<Rightarrow> int list \<Rightarrow> int list \<Rightarrow> cdbl ndarray \<Rightarrow>
   nat \<Rightarrow> cdbl list \<Rightarrow> cdbl list option" where
  "voltage_basis_fp basis_tri_p basis_tri_m basis_node_p basis_node_m V_face m V = do {
     p_p \<leftarrow> load basis_tri_p (int m);
     p_m \<leftarrow> load basis_tri_m (int m);
     ip_p \<leftarrow> load basis_node_p (int m);
     ip_m \<leftarrow> load basis_node_m (int m);
     a \<leftarrow> getitem V_face [p_p, ip_p];
     b \<leftarrow> getitem V_face [p_m, ip_m];
     store V (int m) (csub a b)
   }"

definition voltage_plane_wave_fp ::
  "omp_env \<Rightarrow> real ndarray \<Rightarrow> int ndarray \<Rightarrow> int list \<Rightarrow> int list \<Rightarrow> int list \<Rightarrow> int list \<Rightarrow>
   real ndarray \<Rightarrow> real list \<Rightarrow> complex list \<Rightarrow> complex list \<Rightarrow> cdbl list option" where
  "voltage_plane_wave_fp env nodes triangle_nodes basis_tri_p basis_tri_m basis_node_p basis_node_m
      xi_eta_eval weights e_inc jk_inc =
    (let num_triangles = shape triangle_nodes ! 0;
         num_basis = length basis_tri_p;
         V = replicate num_basis czero;
         V_face = np_zeros_fp [num_triangles, 3];
         nodes_p = np_empty [n_threads env, 3, 3] (malloc_mem env)
     in do {
       (nodes_p, V_face) \<leftarrow>
         for_loop (map (order_p env) [0..<num_triangles])
           (\<lambda>p. voltage_face_fp nodes triangle_nodes xi_eta_eval weights e_inc jk_inc
                  (thread_num env p) p)
           (nodes_p, V_face);
       for_loop (map (order_m env) [0..<num_basis])
         (voltage_basis_fp basis_tri_p basis_tri_m basis_node_p basis_node_m V_face) V
     })"

section \<open>Vocabulary of the specification\<close>

text \<open>
  An array is well formed when its buffer has as many cells as its shape says. An index
  tuple is in range when every index lies within its dimension. \<open>elem a idx\<close> is the cell
  an unchecked read of \<open>a[idx]\<close> returns.
\<close>

definition well_formed :: "'a ndarray \<Rightarrow> bool" where
  "well_formed a \<longleftrightarrow> length (buf a) = prod_list (shape a)"

definition in_range :: "'a ndarray \<Rightarrow> int list \<Rightarrow> bool" where
  "in_range a idx \<longleftrightarrow> list_all2 (\<lambda>n i. 0 \<le> i \<and> i < int n) (shape a) idx"

definition elem :: "'a ndarray \<Rightarrow> int list \<Rightarrow> 'a" where
  "elem a idx = the (getitem a idx)"

text \<open>
  The signed combinations of section 4.3 of the specification, written with the basis
  index table \<open>tp\<close>, \<open>tm\<close> (plus and minus triangles) and \<open>np\<close>, \<open>nm\<close> (plus and minus
  free nodes).
\<close>

definition vector_rwg_value ::
  "int list \<Rightarrow> int list \<Rightarrow> int list \<Rightarrow> int list \<Rightarrow> complex ndarray \<Rightarrow> nat \<Rightarrow> nat \<Rightarrow> complex" where
  "vector_rwg_value tp tm np nm vf m n =
     elem vf [tp ! m, tp ! n, np ! m, np ! n] - elem vf [tp ! m, tm ! n, np ! m, nm ! n]
     - elem vf [tm ! m, tp ! n, nm ! m, np ! n] + elem vf [tm ! m, tm ! n, nm ! m, nm ! n]"

definition scalar_rwg_value ::
  "int list \<Rightarrow> int list \<Rightarrow> complex ndarray \<Rightarrow> nat \<Rightarrow> nat \<Rightarrow> complex" where
  "scalar_rwg_value tp tm sf m n =
     - elem sf [tm ! m, tp ! n] + elem sf [tm ! m, tm ! n]
     + elem sf [tp ! m, tp ! n] - elem sf [tp ! m, tm ! n]"

text \<open>
  \<open>rwg_reads_ok\<close>: every read the converter performs lands inside the buffer it reads.
  \<open>tables_in_range\<close>: the four index arrays have one length, the tensors are well formed
  and cover every index tuple a pair of basis functions refers to.
\<close>

definition rwg_reads_ok ::
  "int list \<Rightarrow> int list \<Rightarrow> int list \<Rightarrow> int list \<Rightarrow> complex ndarray \<Rightarrow> complex ndarray \<Rightarrow> bool" where
  "rwg_reads_ok tp tm np nm vf sf \<longleftrightarrow>
     length tp \<le> length tm \<and> length tp \<le> length np \<and> length tp \<le> length nm \<and>
     (\<forall>m \<in> {..<length tp}. \<forall>n \<in> {..<length tp}.
        getitem vf [tp ! m, tp ! n, np ! m, np ! n] \<noteq> None \<and>
        getitem vf [tp ! m, tm ! n, np ! m, nm ! n] \<noteq> None \<and>
        getitem vf [tm ! m, tp ! n, nm ! m, np ! n] \<noteq> None \<and>
        getitem vf [tm ! m, tm ! n, nm ! m, nm ! n] \<noteq> None \<and>
        getitem sf [tm ! m, tp ! n] \<noteq> None \<and>
        getitem sf [tm ! m, tm ! n] \<noteq> None \<and>
        getitem sf [tp ! m, tp ! n] \<noteq> None \<and>
        getitem sf [tp ! m, tm ! n] \<noteq> None)"

definition tables_in_range ::
  "int list \<Rightarrow> int list \<Rightarrow> int list \<Rightarrow> int list \<Rightarrow> complex ndarray \<Rightarrow> complex ndarray \<Rightarrow> bool" where
  "tables_in_range tp tm np nm vf sf \<longleftrightarrow>
     length tm = length tp \<and> length np = length tp \<and> length nm = length tp \<and>
     well_formed vf \<and> well_formed sf \<and>
     (\<forall>m \<in> {..<length tp}. \<forall>n \<in> {..<length tp}.
        in_range vf [tp ! m, tp ! n, np ! m, np ! n] \<and>
        in_range vf [tp ! m, tm ! n, np ! m, nm ! n] \<and>
        in_range vf [tm ! m, tp ! n, nm ! m, np ! n] \<and>
        in_range vf [tm ! m, tm ! n, nm ! m, nm ! n] \<and>
        in_range sf [tm ! m, tp ! n] \<and>
        in_range sf [tm ! m, tm ! n] \<and>
        in_range sf [tp ! m, tp ! n] \<and>
        in_range sf [tp ! m, tm ! n])"

text \<open>
  The same over strided views: \<open>table v m\<close> is entry \<open>m\<close> of an index array and
  \<open>cell v idx\<close> the cell an unchecked read of \<open>v[idx]\<close> returns; \<open>view_reads_ok\<close> says that
  every read the converter performs has its address inside the buffer viewed, and
  \<open>view_in_range\<close> that every index of a tuple lies within the extent of its axis.
\<close>

definition table :: "int memview \<Rightarrow> nat \<Rightarrow> int" where
  "table v m = the (peek v [int m])"

definition cell :: "'a memview \<Rightarrow> int list \<Rightarrow> 'a" where
  "cell v idx = the (peek v idx)"

definition vector_view_value ::
  "int memview \<Rightarrow> int memview \<Rightarrow> int memview \<Rightarrow> int memview \<Rightarrow> complex memview \<Rightarrow>
   nat \<Rightarrow> nat \<Rightarrow> complex" where
  "vector_view_value tp tm np nm vf m n =
     cell vf [table tp m, table tp n, table np m, table np n]
     - cell vf [table tp m, table tm n, table np m, table nm n]
     - cell vf [table tm m, table tp n, table nm m, table np n]
     + cell vf [table tm m, table tm n, table nm m, table nm n]"

definition scalar_view_value ::
  "int memview \<Rightarrow> int memview \<Rightarrow> complex memview \<Rightarrow> nat \<Rightarrow> nat \<Rightarrow> complex" where
  "scalar_view_value tp tm sf m n =
     - cell sf [table tm m, table tp n] + cell sf [table tm m, table tm n]
     + cell sf [table tp m, table tp n] - cell sf [table tp m, table tm n]"

definition view_reads_ok ::
  "int memview \<Rightarrow> int memview \<Rightarrow> int memview \<Rightarrow> int memview \<Rightarrow>
   complex memview \<Rightarrow> complex memview \<Rightarrow> bool" where
  "view_reads_ok tp tm np nm vf sf \<longleftrightarrow>
     (\<forall>m \<in> {..<extent tp ! 0}.
        peek tp [int m] \<noteq> None \<and> peek tm [int m] \<noteq> None \<and>
        peek np [int m] \<noteq> None \<and> peek nm [int m] \<noteq> None) \<and>
     (\<forall>m \<in> {..<extent tp ! 0}. \<forall>n \<in> {..<extent tp ! 0}.
        peek vf [table tp m, table tp n, table np m, table np n] \<noteq> None \<and>
        peek vf [table tp m, table tm n, table np m, table nm n] \<noteq> None \<and>
        peek vf [table tm m, table tp n, table nm m, table np n] \<noteq> None \<and>
        peek vf [table tm m, table tm n, table nm m, table nm n] \<noteq> None \<and>
        peek sf [table tm m, table tp n] \<noteq> None \<and>
        peek sf [table tm m, table tm n] \<noteq> None \<and>
        peek sf [table tp m, table tp n] \<noteq> None \<and>
        peek sf [table tp m, table tm n] \<noteq> None)"

definition view_in_range :: "'a memview \<Rightarrow> int list \<Rightarrow> bool" where
  "view_in_range v idx \<longleftrightarrow> list_all2 (\<lambda>n i. 0 \<le> i \<and> i < int n) (extent v) idx"

text \<open>
  Exchanging the plus and the minus data of basis function \<open>m\<close>: \<open>swap_plus_minus xs ys m\<close>
  is the array \<open>xs\<close> after the exchange with \<open>ys\<close>.
\<close>

definition swap_plus_minus :: "int list \<Rightarrow> int list \<Rightarrow> nat \<Rightarrow> int list" where
  "swap_plus_minus xs ys m = xs[m := ys ! m]"

text \<open>
  The weighted sum of section 4.1: \<open>position\<close> is the barycentric combination of the three
  nodes with third coordinate \<open>1 - xi - eta\<close>, \<open>point_term\<close> is \<open>(rho[a] \<cdot> e_r) * w\<close> at
  one quadrature point and \<open>weighted_sum\<close> adds the points up. The phase factor of the
  plane wave is a parameter: the specification writes it \<open>exp (- (\<i> * s))\<close> for the dot
  product \<open>s\<close> of \<open>jk_inc\<close> and the position; the code computes \<open>exp (- s)\<close>.
\<close>

definition position :: "real ndarray \<Rightarrow> real ndarray \<Rightarrow> nat \<Rightarrow> nat \<Rightarrow> real" where
  "position nodes_o xi_eta k c =
     (let xi = elem xi_eta [int k, 0]; eta = elem xi_eta [int k, 1]
      in xi * elem nodes_o [0, int c] + eta * elem nodes_o [1, int c]
         + (1 - xi - eta) * elem nodes_o [2, int c])"

definition point_term ::
  "(complex \<Rightarrow> complex) \<Rightarrow> real ndarray \<Rightarrow> real list \<Rightarrow> real ndarray \<Rightarrow> complex list \<Rightarrow>
   complex list \<Rightarrow> nat \<Rightarrow> nat \<Rightarrow> complex" where
  "point_term phase xi_eta weights nodes_o jk_inc e_inc k a =
     (\<Sum>b<3. (phase (\<Sum>c<3. jk_inc ! c * complex_of_real (position nodes_o xi_eta k c)) * e_inc ! b)
             * complex_of_real (position nodes_o xi_eta k b - elem nodes_o [int a, int b]))
     * complex_of_real (weights ! k)"

definition weighted_sum ::
  "(complex \<Rightarrow> complex) \<Rightarrow> real ndarray \<Rightarrow> real list \<Rightarrow> real ndarray \<Rightarrow> complex list \<Rightarrow>
   complex list \<Rightarrow> nat \<Rightarrow> complex" where
  "weighted_sum phase xi_eta weights nodes_o jk_inc e_inc a =
     (\<Sum>k<shape xi_eta ! 0. point_term phase xi_eta weights nodes_o jk_inc e_inc k a)"

text \<open>
  Well-formed inputs: a quadrature rule of as many coordinate pairs as weights, a triangle
  of three nodes with three coordinates, a mesh whose triangles name existing nodes, a
  basis index table whose triangle indices and free-node indices are in range, and a run
  of the OpenMP runtime in which every thread number is below the thread count and each
  \<^verbatim>\<open>prange\<close> runs every iteration once.
\<close>

definition quadrature_ok :: "real ndarray \<Rightarrow> real list \<Rightarrow> bool" where
  "quadrature_ok xi_eta weights \<longleftrightarrow>
     shape xi_eta = [length weights, 2] \<and> well_formed xi_eta"

definition triangle_ok :: "real ndarray \<Rightarrow> bool" where
  "triangle_ok nodes_o \<longleftrightarrow> shape nodes_o = [3, 3] \<and> well_formed nodes_o"

definition mesh_ok :: "real ndarray \<Rightarrow> int ndarray \<Rightarrow> bool" where
  "mesh_ok nodes triangle_nodes \<longleftrightarrow>
     length (shape nodes) = 2 \<and> shape nodes ! 1 = 3 \<and> well_formed nodes \<and>
     length (shape triangle_nodes) = 2 \<and> shape triangle_nodes ! 1 = 3 \<and>
     well_formed triangle_nodes \<and>
     (\<forall>p \<in> {..<shape triangle_nodes ! 0}. \<forall>m \<in> {..<3}.
        0 \<le> elem triangle_nodes [int p, int m] \<and>
        elem triangle_nodes [int p, int m] < int (shape nodes ! 0))"

definition basis_ok :: "int list \<Rightarrow> int list \<Rightarrow> int list \<Rightarrow> int list \<Rightarrow> nat \<Rightarrow> bool" where
  "basis_ok tp tm np nm T \<longleftrightarrow>
     length tm = length tp \<and> length np = length tp \<and> length nm = length tp \<and>
     (\<forall>m \<in> {..<length tp}.
        0 \<le> tp ! m \<and> tp ! m < int T \<and> 0 \<le> tm ! m \<and> tm ! m < int T \<and>
        0 \<le> np ! m \<and> np ! m < 3 \<and> 0 \<le> nm ! m \<and> nm ! m < 3)"

definition env_ok :: "omp_env \<Rightarrow> nat \<Rightarrow> nat \<Rightarrow> bool" where
  "env_ok env T B \<longleftrightarrow>
     (\<forall>p \<in> {..<T}. thread_num env p < n_threads env) \<and>
     distinct (map (order_p env) [0..<T]) \<and> set (map (order_p env) [0..<T]) = {..<T} \<and>
     distinct (map (order_m env) [0..<B]) \<and> set (map (order_m env) [0..<B]) = {..<B}"

text \<open>
  The node coordinates of triangle \<open>p\<close> as the integrator receives them, and the
  integrator's result for that triangle.
\<close>

definition coord :: "real ndarray \<Rightarrow> int ndarray \<Rightarrow> nat \<Rightarrow> nat \<Rightarrow> nat \<Rightarrow> real" where
  "coord nodes triangle_nodes p m q = elem nodes [elem triangle_nodes [int p, int m], int q]"

definition triangle_coords :: "real ndarray \<Rightarrow> int ndarray \<Rightarrow> nat \<Rightarrow> real ndarray" where
  "triangle_coords nodes triangle_nodes p =
     \<lparr>shape = [3, 3], buf = map (\<lambda>i. coord nodes triangle_nodes p (i div 3) (i mod 3)) [0..<9]\<rparr>"

definition face_voltage ::
  "real ndarray \<Rightarrow> int ndarray \<Rightarrow> real ndarray \<Rightarrow> real list \<Rightarrow> complex list \<Rightarrow> complex list \<Rightarrow>
   nat \<Rightarrow> complex list option" where
  "face_voltage nodes triangle_nodes xi_eta weights e_inc jk_inc p =
     source_integral_plane_wave xi_eta weights (triangle_coords nodes triangle_nodes p)
       jk_inc e_inc [0, 0, 0]"

text \<open>
  Over doubles with overflow: \<open>finite_point\<close> says that the phase factor \<^verbatim>\<open>exp_jkr\<close> and
  the vectors \<^verbatim>\<open>rho_o\<close> computed at one quadrature point are finite, \<open>geometry_finite\<close>
  that the computation at point \<open>k\<close> of a triangle returns such values, and
  \<open>face_voltage_fp\<close> is the integrator's result for triangle \<open>p\<close>.
\<close>

definition finite_point :: "dbl \<times> dbl list list \<times> cdbl \<Rightarrow> bool" where
  "finite_point g \<longleftrightarrow>
     (case g of (w_o, rho_o, exp_jkr) \<Rightarrow>
        is_fin (fst exp_jkr) \<and> is_fin (snd exp_jkr) \<and> list_all (list_all is_fin) rho_o)"

definition geometry_finite ::
  "real ndarray \<Rightarrow> real list \<Rightarrow> real ndarray \<Rightarrow> complex list \<Rightarrow> nat \<Rightarrow> bool" where
  "geometry_finite xi_eta weights nodes_o jk_inc k \<longleftrightarrow>
     (case point_geometry_fp xi_eta weights nodes_o jk_inc k of
        None \<Rightarrow> False | Some g \<Rightarrow> finite_point g)"

definition face_voltage_fp ::
  "real ndarray \<Rightarrow> int ndarray \<Rightarrow> real ndarray \<Rightarrow> real list \<Rightarrow> complex list \<Rightarrow> complex list \<Rightarrow>
   nat \<Rightarrow> cdbl list option" where
  "face_voltage_fp nodes triangle_nodes xi_eta weights e_inc jk_inc p =
     source_integral_plane_wave_fp xi_eta weights (triangle_coords nodes triangle_nodes p)
       jk_inc e_inc [czero, czero, czero]"

text \<open>Loop invariants, over the set of iterations already run, and the results in closed form.\<close>

definition rwg_inv ::
  "int list \<Rightarrow> int list \<Rightarrow> int list \<Rightarrow> int list \<Rightarrow> complex ndarray \<Rightarrow> complex ndarray \<Rightarrow>
   (nat \<times> nat) set \<Rightarrow> complex ndarray \<times> complex ndarray \<Rightarrow> bool" where
  "rwg_inv tp tm np nm vf sf C st \<longleftrightarrow>
     shape (fst st) = [length tp, length tp] \<and> length (buf (fst st)) = length tp * length tp \<and>
     shape (snd st) = [length tp, length tp] \<and> length (buf (snd st)) = length tp * length tp \<and>
     (\<forall>(m, n) \<in> C. buf (fst st) ! (m * length tp + n) = vector_rwg_value tp tm np nm vf m n \<and>
                    buf (snd st) ! (m * length tp + n) = scalar_rwg_value tp tm sf m n)"

definition rwg_result ::
  "int list \<Rightarrow> int list \<Rightarrow> int list \<Rightarrow> int list \<Rightarrow> complex ndarray \<Rightarrow> complex ndarray \<Rightarrow>
   complex ndarray \<times> complex ndarray" where
  "rwg_result tp tm np nm vf sf =
    (\<lparr>shape = [length tp, length tp],
      buf = map (\<lambda>k. vector_rwg_value tp tm np nm vf (k div length tp) (k mod length tp))
              [0..<length tp * length tp]\<rparr>,
     \<lparr>shape = [length tp, length tp],
      buf = map (\<lambda>k. scalar_rwg_value tp tm sf (k div length tp) (k mod length tp))
              [0..<length tp * length tp]\<rparr>)"

definition integral_result ::
  "real ndarray \<Rightarrow> real list \<Rightarrow> real ndarray \<Rightarrow> complex list \<Rightarrow> complex list \<Rightarrow> complex list" where
  "integral_result xi_eta weights nodes_o jk_inc e_inc =
     [weighted_sum (\<lambda>s. exp (- s)) xi_eta weights nodes_o jk_inc e_inc 0,
      weighted_sum (\<lambda>s. exp (- s)) xi_eta weights nodes_o jk_inc e_inc 1,
      weighted_sum (\<lambda>s. exp (- s)) xi_eta weights nodes_o jk_inc e_inc 2]"

definition gather_inv ::
  "real ndarray \<Rightarrow> int ndarray \<Rightarrow> nat \<Rightarrow> nat \<Rightarrow> real ndarray \<Rightarrow> (nat \<times> nat) set \<Rightarrow> real ndarray \<Rightarrow> bool" where
  "gather_inv nodes triangle_nodes thread_id p nodes_p0 C s \<longleftrightarrow>
     shape s = shape nodes_p0 \<and> length (buf s) = length (buf nodes_p0) \<and>
     (\<forall>(m, q) \<in> C. buf s ! (thread_id * 9 + m * 3 + q) = coord nodes triangle_nodes p m q) \<and>
     (\<forall>i. i < thread_id * 9 \<or> thread_id * 9 + 9 \<le> i \<longrightarrow> buf s ! i = buf nodes_p0 ! i)"

definition face_inv ::
  "nat \<Rightarrow> nat \<Rightarrow> (nat \<Rightarrow> complex list) \<Rightarrow> nat set \<Rightarrow> real ndarray \<times> complex ndarray \<Rightarrow> bool" where
  "face_inv T n J D st \<longleftrightarrow>
     shape (fst st) = [n, 3, 3] \<and> length (buf (fst st)) = n * 9 \<and>
     shape (snd st) = [T, 3] \<and> length (buf (snd st)) = T * 3 \<and>
     (\<forall>p \<in> D. \<forall>a \<in> {..<3}. buf (snd st) ! (p * 3 + a) = J p ! a)"

definition face_buffer :: "nat \<Rightarrow> (nat \<Rightarrow> complex list) \<Rightarrow> complex ndarray" where
  "face_buffer T J = \<lparr>shape = [T, 3], buf = map (\<lambda>i. J (i div 3) ! (i mod 3)) [0..<T * 3]\<rparr>"

definition voltage_result ::
  "int list \<Rightarrow> int list \<Rightarrow> int list \<Rightarrow> int list \<Rightarrow> (nat \<Rightarrow> complex list) \<Rightarrow> complex list" where
  "voltage_result tp tm np nm J =
     map (\<lambda>m. J (nat (tp ! m)) ! nat (np ! m) - J (nat (tm ! m)) ! nat (nm ! m)) [0..<length tp]"

text \<open>
  The invariant and the result of the converter over strided views, for the value \<open>vv m n\<close>
  and \<open>sv m n\<close> of each entry.
\<close>

definition view_inv ::
  "nat \<Rightarrow> (nat \<Rightarrow> nat \<Rightarrow> complex) \<Rightarrow> (nat \<Rightarrow> nat \<Rightarrow> complex) \<Rightarrow>
   (nat \<times> nat) set \<Rightarrow> complex ndarray \<times> complex ndarray \<Rightarrow> bool" where
  "view_inv B vv sv C st \<longleftrightarrow>
     shape (fst st) = [B, B] \<and> length (buf (fst st)) = B * B \<and>
     shape (snd st) = [B, B] \<and> length (buf (snd st)) = B * B \<and>
     (\<forall>(m, n) \<in> C. buf (fst st) ! (m * B + n) = vv m n \<and> buf (snd st) ! (m * B + n) = sv m n)"

definition view_result ::
  "nat \<Rightarrow> (nat \<Rightarrow> nat \<Rightarrow> complex) \<Rightarrow> (nat \<Rightarrow> nat \<Rightarrow> complex) \<Rightarrow>
   complex ndarray \<times> complex ndarray" where
  "view_result B vv sv =
    (\<lparr>shape = [B, B], buf = map (\<lambda>k. vv (k div B) (k mod B)) [0..<B * B]\<rparr>,
     \<lparr>shape = [B, B], buf = map (\<lambda>k. sv (k div B) (k mod B)) [0..<B * B]\<rparr>)"

subsection \<open>Concrete data\<close>

text \<open>
  The scenario of section 8 of the specification: a flat unit square of two triangles
  sharing the diagonal from node 0 to node 2, the one-point centroid rule with the area
  of a triangle as weight, and two runs of the OpenMP runtime. The face tensors are filled
  with distinguishable values.
\<close>

definition plate_nodes :: "real ndarray" where
  "plate_nodes = \<lparr>shape = [4, 3], buf = [0, 0, 0, 1, 0, 0, 1, 1, 0, 0, 1, 0]\<rparr>"

definition plate_triangles :: "int ndarray" where
  "plate_triangles = \<lparr>shape = [2, 3], buf = [0, 1, 2, 0, 2, 3]\<rparr>"

definition centroid_rule :: "real ndarray" where
  "centroid_rule = \<lparr>shape = [1, 2], buf = [1/3, 1/3]\<rparr>"

definition empty_rule :: "real ndarray" where
  "empty_rule = \<lparr>shape = [0, 2], buf = []\<rparr>"

definition two_threads :: omp_env where
  "two_threads = \<lparr>n_threads = 2, thread_num = (\<lambda>p. p mod 2), order_p = (\<lambda>i. 1 - i),
     order_m = (\<lambda>i. i), malloc_mem = (\<lambda>_. 0)\<rparr>"

definition one_thread :: omp_env where
  "one_thread = \<lparr>n_threads = 1, thread_num = (\<lambda>p. 0), order_p = (\<lambda>i. i),
     order_m = (\<lambda>i. i), malloc_mem = (\<lambda>k. real k)\<rparr>"

definition ramp_tensor :: "complex ndarray" where
  "ramp_tensor = \<lparr>shape = [2, 2, 3, 3], buf = map of_nat [0..<36]\<rparr>"

definition ramp_matrix :: "complex ndarray" where
  "ramp_matrix = \<lparr>shape = [2, 2], buf = [1, 2, 4, 8]\<rparr>"

text \<open>
  A view that is not contiguous: the \<open>2 \<times> 2 \<times> 3 \<times> 3\<close> tensor \<^verbatim>\<open>a[:, :, :, :3]\<close> of an array
  \<^verbatim>\<open>a\<close> of shape \<open>2 \<times> 2 \<times> 3 \<times> 4\<close>, hence of strides 24, 12, 4 and 1, with the value 77 at
  address 15 and the value 5 at address 12; and a contiguous \<open>2 \<times> 2\<close> matrix of zeros.
\<close>

definition padded_tensor :: "complex memview" where
  "padded_tensor = \<lparr>extent = [2, 2, 3, 3], stride = [24, 12, 4, 1], origin = 0,
     memory = (replicate 48 0)[12 := 5, 15 := 77]\<rparr>"

definition zero_matrix :: "complex memview" where
  "zero_matrix = \<lparr>extent = [2, 2], stride = [2, 1], origin = 0, memory = [0, 0, 0, 0]\<rparr>"

section \<open>Loops and indexing\<close>

lemma for_loop_rule_gen:
  assumes "distinct js" and "D0 \<inter> set js = {}" and "Inv D0 s0"
    and "\<And>i D s. i \<in> set js \<Longrightarrow> D0 \<subseteq> D \<Longrightarrow> D \<subseteq> D0 \<union> set js \<Longrightarrow> i \<notin> D \<Longrightarrow> Inv D s
           \<Longrightarrow> \<exists>s'. body i s = Some s' \<and> Inv (insert i D) s'"
  shows "\<exists>s'. for_loop js body s0 = Some s' \<and> Inv (D0 \<union> set js) s'"
  using assms
proof (induction js arbitrary: D0 s0)
  case Nil
  then show ?case by simp
next
  case (Cons j js)
  have "j \<notin> D0" using Cons.prems(2) by auto
  then obtain s1 where s1: "body j s0 = Some s1" "Inv (insert j D0) s1"
    using Cons.prems(4)[of j D0 s0] Cons.prems(3) by auto
  have "\<exists>s'. for_loop js body s1 = Some s' \<and> Inv (insert j D0 \<union> set js) s'"
  proof (rule Cons.IH)
    show "distinct js" using Cons.prems(1) by simp
    show "insert j D0 \<inter> set js = {}" using Cons.prems(1,2) by auto
    show "Inv (insert j D0) s1" by (rule s1(2))
    fix i D s
    assume a: "i \<in> set js" "insert j D0 \<subseteq> D" "D \<subseteq> insert j D0 \<union> set js" "i \<notin> D" "Inv D s"
    show "\<exists>s'. body i s = Some s' \<and> Inv (insert i D) s'"
      by (rule Cons.prems(4)) (use a in auto)
  qed
  then show ?case using s1(1) by simp
qed

lemma for_loop_rule:
  assumes "distinct js" and "Inv {} s0"
    and "\<And>i D s. i \<in> set js \<Longrightarrow> D \<subseteq> set js \<Longrightarrow> i \<notin> D \<Longrightarrow> Inv D s
           \<Longrightarrow> \<exists>s'. body i s = Some s' \<and> Inv (insert i D) s'"
  shows "\<exists>s'. for_loop js body s0 = Some s' \<and> Inv (set js) s'"
  using for_loop_rule_gen[of js "{}" Inv s0 body] assms by simp

lemma for_loop_fails:
  assumes "j \<in> set js" "\<And>s. body j s = None"
  shows "for_loop js body s = None"
  using assms(1)
proof (induction js arbitrary: s)
  case Nil
  then show ?case by simp
next
  case (Cons i js)
  show ?case
  proof (cases "body i s")
    case None
    then show ?thesis by simp
  next
    case (Some s')
    then have "i \<noteq> j" using assms(2)[of s] by auto
    then have "j \<in> set js" using Cons.prems by simp
    from Cons.IH[OF this] show ?thesis using Some by simp
  qed
qed

lemma offset2 [simp]: "offset [r, c] [i, j] = i * int c + j"
  by (simp add: offset_def)

lemma offset4 [simp]:
  "offset [a0, a1, a2, a3] [p, q, i, j] = ((p * int a1 + q) * int a2 + i) * int a3 + j"
  by (simp add: offset_def)

lemma cell_lt: "m < r \<Longrightarrow> n < c \<Longrightarrow> m * c + n < r * (c::nat)"
proof -
  assume a: "m < r" "n < c"
  have "m * c + n < m * c + c" using a by simp
  also have "\<dots> = Suc m * c" by simp
  also have "\<dots> \<le> r * c" using a(1) by (intro mult_le_mono1) simp
  finally show ?thesis .
qed

lemma cell_div: "n < c \<Longrightarrow> (m * c + n) div c = (m::nat)"
  by simp

lemma cell_inj:
  assumes "n < c" "n' < c" "m * c + n = m' * c + (n'::nat)"
  shows "m = m' \<and> n = n'"
proof -
  have "(m * c + n) div c = m" "(m' * c + n') div c = m'" using assms(1,2) by simp_all
  then have "m = m'" using assms(3) by simp
  then show ?thesis using assms(3) by simp
qed

lemma load_nat: "n < length xs \<Longrightarrow> load xs (int n) = Some (xs ! n)"
  by (simp add: load_def)

lemma getitem_elem: "getitem a idx \<noteq> None \<Longrightarrow> getitem a idx = Some (elem a idx)"
  by (auto simp: elem_def)

lemma setitem2:
  assumes "shape a = [r, c]" "length (buf a) = r * c" "m < r" "n < c"
  shows "setitem a [int m, int n] v = Some (a\<lparr>buf := (buf a)[m * c + n := v]\<rparr>)"
proof -
  have "m * c + n < r * c" using assms(3,4) by (rule cell_lt)
  moreover have "int m * int c + int n = int (m * c + n)" by simp
  ultimately show ?thesis
    unfolding setitem_def store_def using assms(1,2)
    by (simp del: of_nat_add of_nat_mult)
qed

lemma offset_bounds:
  assumes "list_all2 (\<lambda>n i. 0 \<le> i \<and> i < int n) shp idx" "0 \<le> acc" "acc < int P"
  shows "0 \<le> foldl (\<lambda>acc (n, i). acc * int n + i) acc (zip shp idx) \<and>
         foldl (\<lambda>acc (n, i). acc * int n + i) acc (zip shp idx) < int (P * prod_list shp)"
  using assms
proof (induction shp idx arbitrary: acc P rule: list_all2_induct)
  case Nil
  then show ?case by simp
next
  case (Cons n shp i idx)
  have i: "0 \<le> i" "i < int n" using Cons.hyps(1) by simp_all
  have "acc * int n \<le> (int P - 1) * int n"
    using Cons.prems by (intro mult_right_mono) simp_all
  then have up: "acc * int n + i < int (P * n)"
    using i by (simp add: algebra_simps)
  have lo: "0 \<le> acc * int n + i" using Cons.prems(1) i by simp
  from Cons.IH[OF lo up] show ?case by (simp add: mult.assoc)
qed

lemma getitem_in_range:
  assumes "well_formed a" "in_range a idx"
  shows "getitem a idx = Some (elem a idx)"
proof -
  have "0 \<le> offset (shape a) idx \<and> offset (shape a) idx < int (1 * prod_list (shape a))"
    unfolding offset_def
    by (rule offset_bounds) (use assms(2) in \<open>simp_all add: in_range_def\<close>)
  then have "getitem a idx \<noteq> None"
    using assms(1) by (simp add: getitem_def load_def well_formed_def)
  then show ?thesis by (rule getitem_elem)
qed

section \<open>The converter in closed form\<close>

lemma rwg_cell_step:
  assumes ok: "rwg_reads_ok tp tm np nm vf sf"
    and m: "m < length tp" and n: "n < length tp"
    and V: "shape V = [length tp, length tp]" "length (buf V) = length tp * length tp"
    and S: "shape S = [length tp, length tp]" "length (buf S) = length tp * length tp"
  shows "rwg_cell tp tm np nm vf sf m (tp ! m) (tm ! m) (np ! m) (nm ! m) n (V, S) =
     Some (V\<lparr>buf := (buf V)[m * length tp + n := vector_rwg_value tp tm np nm vf m n]\<rparr>,
           S\<lparr>buf := (buf S)[m * length tp + n := scalar_rwg_value tp tm sf m n]\<rparr>)"
proof -
  have len: "n < length tm" "n < length np" "n < length nm"
    using ok n by (auto simp: rwg_reads_ok_def)
  have g: "getitem vf [tp ! m, tp ! n, np ! m, np ! n] = Some (elem vf [tp ! m, tp ! n, np ! m, np ! n])"
    "getitem vf [tp ! m, tm ! n, np ! m, nm ! n] = Some (elem vf [tp ! m, tm ! n, np ! m, nm ! n])"
    "getitem vf [tm ! m, tp ! n, nm ! m, np ! n] = Some (elem vf [tm ! m, tp ! n, nm ! m, np ! n])"
    "getitem vf [tm ! m, tm ! n, nm ! m, nm ! n] = Some (elem vf [tm ! m, tm ! n, nm ! m, nm ! n])"
    "getitem sf [tm ! m, tp ! n] = Some (elem sf [tm ! m, tp ! n])"
    "getitem sf [tm ! m, tm ! n] = Some (elem sf [tm ! m, tm ! n])"
    "getitem sf [tp ! m, tp ! n] = Some (elem sf [tp ! m, tp ! n])"
    "getitem sf [tp ! m, tm ! n] = Some (elem sf [tp ! m, tm ! n])"
    using ok m n by (auto simp: rwg_reads_ok_def intro!: getitem_elem)
  show ?thesis
    unfolding rwg_cell_def
    by (simp add: load_nat n len g setitem2[OF V m n] setitem2[OF S m n]
        vector_rwg_value_def scalar_rwg_value_def)
qed

lemma rwg_cell_inv:
  assumes ok: "rwg_reads_ok tp tm np nm vf sf"
    and m: "m < length tp" and n: "n < length tp"
    and C: "C \<subseteq> {..<length tp} \<times> {..<length tp}"
    and inv: "rwg_inv tp tm np nm vf sf C st"
  shows "\<exists>st'. rwg_cell tp tm np nm vf sf m (tp ! m) (tm ! m) (np ! m) (nm ! m) n st = Some st' \<and>
           rwg_inv tp tm np nm vf sf (insert (m, n) C) st'"
proof -
  obtain V S where st: "st = (V, S)" by (cases st)
  have V: "shape V = [length tp, length tp]" "length (buf V) = length tp * length tp"
    and S: "shape S = [length tp, length tp]" "length (buf S) = length tp * length tp"
    using inv by (simp_all add: rwg_inv_def st)
  have lt: "m * length tp + n < length tp * length tp" using m n by (rule cell_lt)
  have other: "m' = m \<and> n' = n"
    if "(m', n') \<in> C" "m * length tp + n = m' * length tp + n'" for m' n'
  proof -
    have "n' < length tp" using that(1) C by auto
    from cell_inj[OF n this that(2)] show ?thesis by simp
  qed
  have keep: "buf V ! (m' * length tp + n') = vector_rwg_value tp tm np nm vf m' n' \<and>
              buf S ! (m' * length tp + n') = scalar_rwg_value tp tm sf m' n'"
    if "(m', n') \<in> C" for m' n'
    using inv that by (auto simp: rwg_inv_def st)
  show ?thesis
    unfolding st rwg_cell_step[OF ok m n V S]
    using V S lt keep other
    by (auto simp: rwg_inv_def nth_list_update)
qed

lemma rwg_row_inv:
  assumes ok: "rwg_reads_ok tp tm np nm vf sf"
    and m: "m < length tp" and D: "D \<subseteq> {..<length tp}"
    and inv: "rwg_inv tp tm np nm vf sf (D \<times> {..<length tp}) st"
  shows "\<exists>st'. rwg_row tp tm np nm vf sf (length tp) m st = Some st' \<and>
           rwg_inv tp tm np nm vf sf (insert m D \<times> {..<length tp}) st'"
proof -
  let ?B = "length tp"
  let ?Inv = "\<lambda>E. rwg_inv tp tm np nm vf sf (D \<times> {..<?B} \<union> {m} \<times> E)"
  have len: "m < length tm" "m < length np" "m < length nm"
    using ok m by (auto simp: rwg_reads_ok_def)
  have "\<exists>st'. for_loop [0..<?B]
          (rwg_cell tp tm np nm vf sf m (tp ! m) (tm ! m) (np ! m) (nm ! m)) st = Some st' \<and>
          ?Inv (set [0..<?B]) st'"
  proof (rule for_loop_rule)
    show "distinct [0..<?B]" by simp
    show "?Inv {} st" using inv by simp
    fix n E s
    assume a: "n \<in> set [0..<?B]" "E \<subseteq> set [0..<?B]" "?Inv E s"
    have n: "n < ?B" using a(1) by simp
    have C: "D \<times> {..<?B} \<union> {m} \<times> E \<subseteq> {..<?B} \<times> {..<?B}"
      using D m a(2) by auto
    have eq: "insert (m, n) (D \<times> {..<?B} \<union> {m} \<times> E) = D \<times> {..<?B} \<union> {m} \<times> insert n E"
      by auto
    show "\<exists>s'. rwg_cell tp tm np nm vf sf m (tp ! m) (tm ! m) (np ! m) (nm ! m) n s = Some s' \<and>
            ?Inv (insert n E) s'"
      using rwg_cell_inv[OF ok m n C a(3)] unfolding eq .
  qed
  moreover have "D \<times> {..<?B} \<union> {m} \<times> set [0..<?B] = insert m D \<times> {..<?B}"
    by auto
  ultimately show ?thesis
    unfolding rwg_row_def by (simp add: load_nat m len)
qed

lemma rwg_inv_final:
  assumes "rwg_inv tp tm np nm vf sf ({..<length tp} \<times> {..<length tp}) (V, S)"
  shows "V = \<lparr>shape = [length tp, length tp],
              buf = map (\<lambda>k. vector_rwg_value tp tm np nm vf (k div length tp) (k mod length tp))
                      [0..<length tp * length tp]\<rparr>"
    and "S = \<lparr>shape = [length tp, length tp],
              buf = map (\<lambda>k. scalar_rwg_value tp tm sf (k div length tp) (k mod length tp))
                      [0..<length tp * length tp]\<rparr>"
proof -
  let ?B = "length tp"
  have cell: "buf V ! k = vector_rwg_value tp tm np nm vf (k div ?B) (k mod ?B) \<and>
              buf S ! k = scalar_rwg_value tp tm sf (k div ?B) (k mod ?B)" if "k < ?B * ?B" for k
  proof -
    have pos: "0 < ?B" using that by (cases "?B = 0") simp_all
    have "k div ?B < ?B" using that by (simp add: less_mult_imp_div_less)
    moreover have "k mod ?B < ?B" using pos by simp
    ultimately have mem: "(k div ?B, k mod ?B) \<in> {..<?B} \<times> {..<?B}" by simp
    have "\<forall>(m, n) \<in> {..<?B} \<times> {..<?B}.
            buf V ! (m * ?B + n) = vector_rwg_value tp tm np nm vf m n \<and>
            buf S ! (m * ?B + n) = scalar_rwg_value tp tm sf m n"
      using assms by (simp add: rwg_inv_def)
    from bspec[OF this mem] show ?thesis by simp
  qed
  have "buf V = map (\<lambda>k. vector_rwg_value tp tm np nm vf (k div ?B) (k mod ?B)) [0..<?B * ?B]"
    using assms cell by (intro nth_equalityI) (simp_all add: rwg_inv_def)
  moreover have "buf S = map (\<lambda>k. scalar_rwg_value tp tm sf (k div ?B) (k mod ?B)) [0..<?B * ?B]"
    using assms cell by (intro nth_equalityI) (simp_all add: rwg_inv_def)
  moreover have "shape V = [?B, ?B]" "shape S = [?B, ?B]"
    using assms by (simp_all add: rwg_inv_def)
  ultimately show
    "V = \<lparr>shape = [?B, ?B],
          buf = map (\<lambda>k. vector_rwg_value tp tm np nm vf (k div ?B) (k mod ?B)) [0..<?B * ?B]\<rparr>"
    "S = \<lparr>shape = [?B, ?B],
          buf = map (\<lambda>k. scalar_rwg_value tp tm sf (k div ?B) (k mod ?B)) [0..<?B * ?B]\<rparr>"
    by simp_all
qed

lemma triangle_face_to_rwg_closed:
  assumes ok: "rwg_reads_ok tp tm np nm vf sf"
  shows "triangle_face_to_rwg mem_v mem_s tp tm np nm vf sf = Some (rwg_result tp tm np nm vf sf)"
proof -
  let ?B = "length tp"
  let ?Inv = "\<lambda>D. rwg_inv tp tm np nm vf sf (D \<times> {..<?B})"
  let ?s0 = "(np_empty [?B, ?B] mem_v, np_empty [?B, ?B] mem_s)"
  have "\<exists>st'. for_loop [0..<?B] (rwg_row tp tm np nm vf sf ?B) ?s0 = Some st' \<and>
          ?Inv (set [0..<?B]) st'"
  proof (rule for_loop_rule)
    show "distinct [0..<?B]" by simp
    show "?Inv {} ?s0" by (simp add: rwg_inv_def np_empty_def)
    fix m D s
    assume a: "m \<in> set [0..<?B]" "D \<subseteq> set [0..<?B]" "?Inv D s"
    show "\<exists>s'. rwg_row tp tm np nm vf sf ?B m s = Some s' \<and> ?Inv (insert m D) s'"
      by (rule rwg_row_inv[OF ok]) (use a in auto)
  qed
  then obtain V S where r: "for_loop [0..<?B] (rwg_row tp tm np nm vf sf ?B) ?s0 = Some (V, S)"
    and inv: "rwg_inv tp tm np nm vf sf ({..<?B} \<times> {..<?B}) (V, S)"
    by (auto simp: atLeast0LessThan)
  show ?thesis
    unfolding triangle_face_to_rwg_def Let_def r rwg_result_def
    using rwg_inv_final[OF inv] by simp
qed

lemma rwg_result_getitem:
  assumes "m < length tp" "n < length tp"
  shows "getitem (fst (rwg_result tp tm np nm vf sf)) [int m, int n] =
           Some (vector_rwg_value tp tm np nm vf m n)"
    and "getitem (snd (rwg_result tp tm np nm vf sf)) [int m, int n] =
           Some (scalar_rwg_value tp tm sf m n)"
proof -
  have lt: "m * length tp + n < length tp * length tp" using assms by (rule cell_lt)
  have e: "int m * int (length tp) + int n = int (m * length tp + n)" by simp
  have d: "(m * length tp + n) div length tp = m" using assms(2) by (rule cell_div)
  show "getitem (fst (rwg_result tp tm np nm vf sf)) [int m, int n] =
           Some (vector_rwg_value tp tm np nm vf m n)"
    unfolding rwg_result_def getitem_def load_def using lt assms(2)
    by (simp add: e d del: of_nat_add of_nat_mult)
  show "getitem (snd (rwg_result tp tm np nm vf sf)) [int m, int n] =
           Some (scalar_rwg_value tp tm sf m n)"
    unfolding rwg_result_def getitem_def load_def using lt assms(2)
    by (simp add: e d del: of_nat_add of_nat_mult)
qed

lemma tables_in_range_reads_ok:
  assumes "tables_in_range tp tm np nm vf sf"
  shows "rwg_reads_ok tp tm np nm vf sf"
  using assms unfolding tables_in_range_def rwg_reads_ok_def
  by (auto simp: getitem_in_range)

section \<open>The integrator in closed form\<close>

lemma upt3: "[0..<3] = [0, 1, 2]"
  by (simp add: upt_rec)

lemma dot3:
  assumes "length a = 3" "length b = 3"
  shows "dot_product_complex_real 3 a b =
     Some (0 + a ! 0 * complex_of_real (b ! 0) + a ! 1 * complex_of_real (b ! 1)
            + a ! 2 * complex_of_real (b ! 2))"
  unfolding dot_product_complex_real_def upt3
  using assms by (simp add: load_def)

lemma sum3: "(\<Sum>b<(3::nat). f b) = f 0 + f 1 + (f 2 :: 'a::comm_monoid_add)"
  by (simp add: numeral_3_eq_3 numeral_2_eq_2 add.assoc)

lemma cexp_exp: "cexp z = exp z"
  by (simp add: cexp_def exp_eq_polar complex_eq_iff)

lemma triangle_ok_getitem:
  assumes "triangle_ok nodes_o" "a < 3" "b < 3"
  shows "getitem nodes_o [int a, int b] = Some (elem nodes_o [int a, int b])"
  by (rule getitem_in_range) (use assms in \<open>simp_all add: triangle_ok_def in_range_def\<close>)

lemma quadrature_ok_getitem:
  assumes "quadrature_ok xi_eta weights" "k < length weights" "j < 2"
  shows "getitem xi_eta [int k, int j] = Some (elem xi_eta [int k, int j])"
  by (rule getitem_in_range) (use assms in \<open>simp_all add: quadrature_ok_def in_range_def\<close>)

lemma source_integral_point_closed:
  assumes q: "quadrature_ok xi_eta weights" and t: "triangle_ok nodes_o"
    and len: "length jk_inc = 3" "length e_inc = 3" and k: "k < length weights"
  shows "source_integral_point xi_eta weights nodes_o jk_inc e_inc k [i0, i1, i2] =
     Some [i0 + point_term (\<lambda>s. exp (- s)) xi_eta weights nodes_o jk_inc e_inc k 0,
           i1 + point_term (\<lambda>s. exp (- s)) xi_eta weights nodes_o jk_inc e_inc k 1,
           i2 + point_term (\<lambda>s. exp (- s)) xi_eta weights nodes_o jk_inc e_inc k 2]"
proof -
  have n: "getitem nodes_o [0, 0] = Some (elem nodes_o [0, 0])"
    "getitem nodes_o [0, 1] = Some (elem nodes_o [0, 1])"
    "getitem nodes_o [0, 2] = Some (elem nodes_o [0, 2])"
    "getitem nodes_o [1, 0] = Some (elem nodes_o [1, 0])"
    "getitem nodes_o [1, 1] = Some (elem nodes_o [1, 1])"
    "getitem nodes_o [1, 2] = Some (elem nodes_o [1, 2])"
    "getitem nodes_o [2, 0] = Some (elem nodes_o [2, 0])"
    "getitem nodes_o [2, 1] = Some (elem nodes_o [2, 1])"
    "getitem nodes_o [2, 2] = Some (elem nodes_o [2, 2])"
    using triangle_ok_getitem[OF t, of 0 0] triangle_ok_getitem[OF t, of 0 1]
      triangle_ok_getitem[OF t, of 0 2] triangle_ok_getitem[OF t, of 1 0]
      triangle_ok_getitem[OF t, of 1 1] triangle_ok_getitem[OF t, of 1 2]
      triangle_ok_getitem[OF t, of 2 0] triangle_ok_getitem[OF t, of 2 1]
      triangle_ok_getitem[OF t, of 2 2]
    by simp_all
  have x: "getitem xi_eta [int k, 0] = Some (elem xi_eta [int k, 0])"
    "getitem xi_eta [int k, 1] = Some (elem xi_eta [int k, 1])"
    using quadrature_ok_getitem[OF q k, of 0] quadrature_ok_getitem[OF q k, of 1] by simp_all
  have e: "load e_inc 0 = Some (e_inc ! 0)" "load e_inc 1 = Some (e_inc ! 1)"
    "load e_inc 2 = Some (e_inc ! 2)"
    using len by (simp_all add: load_def)
  show ?thesis
    unfolding source_integral_point_def upt3
    by (simp add: load_nat k n x e dot3 len Let_def cexp_exp load_def store_def
        point_term_def position_def sum3 algebra_simps)
qed

lemma replicate3: "replicate 3 x = [x, x, x]"
  by (simp add: numeral_3_eq_3)

lemma source_integral_plane_wave_closed:
  assumes q: "quadrature_ok xi_eta weights" and t: "triangle_ok nodes_o"
    and len: "length jk_inc = 3" "length e_inc = 3" and I: "length I = 3"
  shows "source_integral_plane_wave xi_eta weights nodes_o jk_inc e_inc I =
           Some (integral_result xi_eta weights nodes_o jk_inc e_inc)"
proof -
  let ?pt = "point_term (\<lambda>s. exp (- s)) xi_eta weights nodes_o jk_inc e_inc"
  let ?Inv = "\<lambda>D J. J = [\<Sum>k\<in>D. ?pt k 0, \<Sum>k\<in>D. ?pt k 1, \<Sum>k\<in>D. ?pt k 2]"
  let ?n = "length weights"
  have n: "shape xi_eta ! 0 = ?n" using q by (simp add: quadrature_ok_def)
  have "\<exists>J. for_loop [0..<?n] (source_integral_point xi_eta weights nodes_o jk_inc e_inc)
              [0, 0, 0] = Some J \<and> ?Inv (set [0..<?n]) J"
  proof (rule for_loop_rule)
    show "distinct [0..<?n]" by simp
    show "?Inv {} [0, 0, 0]" by simp
    fix k D J
    assume a: "k \<in> set [0..<?n]" "D \<subseteq> set [0..<?n]" "k \<notin> D" "?Inv D J"
    have k: "k < ?n" using a(1) by simp
    have fin: "finite D" using a(2) by (rule finite_subset) simp
    show "\<exists>J'. source_integral_point xi_eta weights nodes_o jk_inc e_inc k J = Some J' \<and>
            ?Inv (insert k D) J'"
      unfolding a(4) source_integral_point_closed[OF q t len k]
      using fin a(3) by (simp add: add.commute)
  qed
  then show ?thesis
    unfolding source_integral_plane_wave_def Let_def n I replicate3
    by (auto simp: integral_result_def weighted_sum_def n atLeast0LessThan)
qed

section \<open>The assembler in closed form\<close>

lemma shape2: "length (xs::nat list) = 2 \<Longrightarrow> xs = [xs ! 0, xs ! 1]"
  by (cases xs; cases "tl xs") auto

lemma offset3 [simp]:
  "offset [a0, a1, a2] [i, j, k] = (i * int a1 + j) * int a2 + k"
  by (simp add: offset_def)

lemma setitem3:
  assumes "shape a = [n, 3, 3]" "length (buf a) = n * 9" "t < n" "m < 3" "q < 3"
  shows "setitem a [int t, int m, int q] x = Some (a\<lparr>buf := (buf a)[t * 9 + m * 3 + q := x]\<rparr>)"
proof -
  have off: "offset (shape a) [int t, int m, int q] = int (t * 9 + m * 3 + q)"
    using assms(1) by simp
  have "t * 9 + m * 3 + q < n * 9" using assms(3,4,5) by arith
  then show ?thesis
    unfolding setitem_def store_def off using assms(2)
    by (simp del: of_nat_add of_nat_mult)
qed

lemma mesh_ok_reads:
  assumes ok: "mesh_ok nodes triangle_nodes" and p: "p < shape triangle_nodes ! 0"
    and m: "m < 3" and q: "q < 3"
  shows "getitem triangle_nodes [int p, int m] = Some (elem triangle_nodes [int p, int m])"
    and "getitem nodes [elem triangle_nodes [int p, int m], int q] =
           Some (coord nodes triangle_nodes p m q)"
proof -
  have st: "shape triangle_nodes = [shape triangle_nodes ! 0, 3]"
    using ok shape2[of "shape triangle_nodes"] by (simp add: mesh_ok_def)
  have sn: "shape nodes = [shape nodes ! 0, 3]"
    using ok shape2[of "shape nodes"] by (simp add: mesh_ok_def)
  have wf: "well_formed triangle_nodes" "well_formed nodes" using ok by (simp_all add: mesh_ok_def)
  have "in_range triangle_nodes [int p, int m]"
    unfolding in_range_def by (subst st) (use p m in simp)
  then show "getitem triangle_nodes [int p, int m] = Some (elem triangle_nodes [int p, int m])"
    by (rule getitem_in_range[OF wf(1)])
  have "0 \<le> elem triangle_nodes [int p, int m] \<and>
        elem triangle_nodes [int p, int m] < int (shape nodes ! 0)"
    using ok p m by (simp add: mesh_ok_def)
  then have "in_range nodes [elem triangle_nodes [int p, int m], int q]"
    unfolding in_range_def by (subst sn) (use q in simp)
  then show "getitem nodes [elem triangle_nodes [int p, int m], int q] =
           Some (coord nodes triangle_nodes p m q)"
    unfolding coord_def by (rule getitem_in_range[OF wf(2)])
qed

lemma gather_cell_inv:
  assumes ok: "mesh_ok nodes triangle_nodes" and p: "p < shape triangle_nodes ! 0"
    and s0: "shape nodes_p0 = [n, 3, 3]" "length (buf nodes_p0) = n * 9" and t: "t < n"
    and m: "m < 3" and q: "q < 3" and C: "C \<subseteq> {..<3} \<times> {..<3}"
    and inv: "gather_inv nodes triangle_nodes t p nodes_p0 C s"
  shows "\<exists>s'. (do {
            which_node \<leftarrow> getitem triangle_nodes [int p, int m];
            x \<leftarrow> getitem nodes [which_node, int q];
            setitem s [int t, int m, int q] x
          }) = Some s' \<and> gather_inv nodes triangle_nodes t p nodes_p0 (insert (m, q) C) s'"
proof -
  have s: "shape s = [n, 3, 3]" "length (buf s) = n * 9"
    using inv s0 by (simp_all add: gather_inv_def)
  have lt: "t * 9 + m * 3 + q < n * 9" using t m q by arith
  have keep: "buf s ! (t * 9 + m' * 3 + q') = coord nodes triangle_nodes p m' q'"
    if "(m', q') \<in> C" for m' q'
    using inv that by (auto simp: gather_inv_def)
  have other: "m' = m \<and> q' = q"
    if "(m', q') \<in> C" "t * 9 + m * 3 + q = t * 9 + m' * 3 + q'" for m' q'
  proof -
    have "q' < 3" using that(1) C by auto
    then show ?thesis using that(2) q by arith
  qed
  have frame: "buf s ! i = buf nodes_p0 ! i" if "i < t * 9 \<or> t * 9 + 9 \<le> i" for i
    using inv that by (auto simp: gather_inv_def)
  have ne: "i \<noteq> t * 9 + m * 3 + q" if "i < t * 9 \<or> t * 9 + 9 \<le> i" for i
    using that m q by arith
  show ?thesis
    using s s0 lt keep other frame ne m q
    by (auto simp: gather_inv_def nth_list_update mesh_ok_reads[OF ok p m q] setitem3[OF s t m q])
qed

lemma gather_nodes_inv:
  assumes ok: "mesh_ok nodes triangle_nodes" and p: "p < shape triangle_nodes ! 0"
    and s0: "shape nodes_p0 = [n, 3, 3]" "length (buf nodes_p0) = n * 9" and t: "t < n"
  shows "\<exists>s'. gather_nodes nodes triangle_nodes t p nodes_p0 = Some s' \<and>
           gather_inv nodes triangle_nodes t p nodes_p0 ({..<3} \<times> {..<3}) s'"
proof -
  let ?Inv = "\<lambda>D. gather_inv nodes triangle_nodes t p nodes_p0 (D \<times> {..<3})"
  let ?inner = "\<lambda>m. for_loop [0..<3] (\<lambda>q nodes_p. do {
            which_node \<leftarrow> getitem triangle_nodes [int p, int m];
            x \<leftarrow> getitem nodes [which_node, int q];
            setitem nodes_p [int t, int m, int q] x
          })"
  have "\<exists>s'. for_loop [0..<3] ?inner nodes_p0 = Some s' \<and> ?Inv (set [0..<3]) s'"
  proof (rule for_loop_rule)
    show "distinct [0..<3]" by simp
    show "?Inv {} nodes_p0" by (simp add: gather_inv_def)
    fix m D s
    assume a: "m \<in> set [0..<3]" "D \<subseteq> set [0..<3]" "m \<notin> D" "?Inv D s"
    have m: "m < 3" using a(1) by simp
    let ?Inv2 = "\<lambda>E. gather_inv nodes triangle_nodes t p nodes_p0 (D \<times> {..<3} \<union> {m} \<times> E)"
    have "\<exists>s'. ?inner m s = Some s' \<and> ?Inv2 (set [0..<3]) s'"
    proof (rule for_loop_rule)
      show "distinct [0..<3]" by simp
      show "?Inv2 {} s" using a(4) by simp
      fix q E s1
      assume b: "q \<in> set [0..<3]" "E \<subseteq> set [0..<3]" "q \<notin> E" "?Inv2 E s1"
      have q: "q < 3" using b(1) by simp
      have C: "D \<times> {..<3} \<union> {m} \<times> E \<subseteq> {..<3} \<times> {..<3}" using a(2) b(2) m by auto
      have eq: "insert (m, q) (D \<times> {..<3} \<union> {m} \<times> E) = D \<times> {..<3} \<union> {m} \<times> insert q E"
        by auto
      show "\<exists>s'. (do {
            which_node \<leftarrow> getitem triangle_nodes [int p, int m];
            x \<leftarrow> getitem nodes [which_node, int q];
            setitem s1 [int t, int m, int q] x
          }) = Some s' \<and> ?Inv2 (insert q E) s'"
        using gather_cell_inv[OF ok p s0 t m q C b(4)] unfolding eq .
    qed
    moreover have "D \<times> {..<3} \<union> {m} \<times> set [0..<3] = insert m D \<times> {..<3}" by auto
    ultimately show "\<exists>s'. ?inner m s = Some s' \<and> ?Inv (insert m D) s'" by simp
  qed
  then show ?thesis
    unfolding gather_nodes_def by (simp add: atLeast0LessThan)
qed

lemma gather_subarray:
  assumes inv: "gather_inv nodes triangle_nodes t p nodes_p0 ({..<3} \<times> {..<3}) s"
    and s0: "shape nodes_p0 = [n, 3, 3]" "length (buf nodes_p0) = n * 9" and t: "t < n"
  shows "subarray s t = triangle_coords nodes triangle_nodes p"
proof -
  have s: "shape s = [n, 3, 3]" "length (buf s) = n * 9"
    using inv s0 by (simp_all add: gather_inv_def)
  have len: "length (take 9 (drop (t * 9) (buf s))) = 9" using s(2) t by simp
  have cell: "take 9 (drop (t * 9) (buf s)) ! i = coord nodes triangle_nodes p (i div 3) (i mod 3)"
    if "i < 9" for i
  proof -
    have mem: "(i div 3, i mod 3) \<in> {..<3} \<times> {..<3}" using that by simp
    have "\<forall>(m, q) \<in> {..<3} \<times> {..<3}.
            buf s ! (t * 9 + m * 3 + q) = coord nodes triangle_nodes p m q"
      using inv by (simp add: gather_inv_def)
    from bspec[OF this mem]
    have "buf s ! (t * 9 + i) = coord nodes triangle_nodes p (i div 3) (i mod 3)"
      by (simp add: add.assoc)
    moreover have "t * 9 + i < length (buf s)" using s(2) t that by simp
    ultimately show ?thesis using that by simp
  qed
  have "take 9 (drop (t * 9) (buf s)) =
          map (\<lambda>i. coord nodes triangle_nodes p (i div 3) (i mod 3)) [0..<9]"
    by (rule nth_equalityI) (use len cell in simp_all)
  then show ?thesis
    unfolding subarray_def triangle_coords_def by (simp add: s(1))
qed

lemma integral_ignores_I:
  "length I = 3 \<Longrightarrow>
   source_integral_plane_wave xi_eta weights nodes_o jk_inc e_inc I =
   source_integral_plane_wave xi_eta weights nodes_o jk_inc e_inc [0, 0, 0]"
  by (simp add: source_integral_plane_wave_def replicate3)

lemma write_row:
  assumes "length b = T * 3" "p < T" "length J = 3"
  shows "length (take (p * 3) b @ J @ drop (p * 3 + 3) b) = T * 3"
    and "a < 3 \<Longrightarrow> (take (p * 3) b @ J @ drop (p * 3 + 3) b) ! (p * 3 + a) = J ! a"
    and "p' \<noteq> p \<Longrightarrow> p' < T \<Longrightarrow> a < 3 \<Longrightarrow>
         (take (p * 3) b @ J @ drop (p * 3 + 3) b) ! (p' * 3 + a) = b ! (p' * 3 + a)"
proof -
  have l: "length (take (p * 3) b) = p * 3" using assms(1,2) by simp
  show "length (take (p * 3) b @ J @ drop (p * 3 + 3) b) = T * 3"
    using assms by simp
  show "(take (p * 3) b @ J @ drop (p * 3 + 3) b) ! (p * 3 + a) = J ! a" if "a < 3"
    using that assms(3) l by (simp add: nth_append)
  show "(take (p * 3) b @ J @ drop (p * 3 + 3) b) ! (p' * 3 + a) = b ! (p' * 3 + a)"
    if "p' \<noteq> p" "p' < T" "a < 3"
  proof (cases "p' < p")
    case True
    then have "p' * 3 + a < p * 3" using that(3) by arith
    then show ?thesis using l by (simp add: nth_append)
  next
    case False
    then have ge: "p * 3 + 3 \<le> p' * 3 + a" using that(1) by arith
    then have "\<not> p' * 3 + a < p * 3" "\<not> p' * 3 + a - p * 3 < 3" by arith+
    moreover have "p * 3 + 3 + (p' * 3 + a - p * 3 - 3) = p' * 3 + a" using ge by arith
    moreover have "p * 3 + 3 \<le> length b" using assms(1,2) by arith
    ultimately show ?thesis using l assms(3) by (simp add: nth_append)
  qed
qed

lemma voltage_face_closed:
  assumes ok: "mesh_ok nodes triangle_nodes" and T: "shape triangle_nodes ! 0 = T"
    and p: "p < T" and t: "t < n"
    and fv: "face_voltage nodes triangle_nodes xi_eta weights e_inc jk_inc p = Some J"
    and s0: "shape nodes_p = [n, 3, 3]" "length (buf nodes_p) = n * 9"
    and V: "shape V_face = [T, 3]" "length (buf V_face) = T * 3"
  shows "\<exists>s'. voltage_face nodes triangle_nodes xi_eta weights e_inc jk_inc t p (nodes_p, V_face) =
           Some (s', V_face\<lparr>buf := take (p * 3) (buf V_face) @ J @ drop (p * 3 + 3) (buf V_face)\<rparr>) \<and>
           gather_inv nodes triangle_nodes t p nodes_p ({..<3} \<times> {..<3}) s'"
proof -
  have p': "p < shape triangle_nodes ! 0" using p T by simp
  obtain s' where g: "gather_nodes nodes triangle_nodes t p nodes_p = Some s'"
    and gi: "gather_inv nodes triangle_nodes t p nodes_p ({..<3} \<times> {..<3}) s'"
    using gather_nodes_inv[OF ok p' s0 t] by blast
  have sub: "subarray s' t = triangle_coords nodes triangle_nodes p"
    by (rule gather_subarray[OF gi s0 t])
  have "length (buf (subarray V_face p)) = 3"
    using V p by (simp add: subarray_def)
  from integral_ignores_I[OF this]
  have I: "source_integral_plane_wave xi_eta weights (triangle_coords nodes triangle_nodes p)
          jk_inc e_inc (buf (subarray V_face p)) = Some J"
    using fv unfolding face_voltage_def by (rule trans)
  have "voltage_face nodes triangle_nodes xi_eta weights e_inc jk_inc t p (nodes_p, V_face) =
          Some (s', write_back V_face p J)"
    unfolding voltage_face_def by (simp add: g sub I)
  moreover have "write_back V_face p J =
          V_face\<lparr>buf := take (p * 3) (buf V_face) @ J @ drop (p * 3 + 3) (buf V_face)\<rparr>"
    by (simp add: write_back_def V(1))
  ultimately show ?thesis using gi by simp
qed

lemma voltage_face_inv:
  assumes ok: "mesh_ok nodes triangle_nodes" and T: "shape triangle_nodes ! 0 = T"
    and p: "p < T" and t: "t < n" and D: "p \<notin> D" "D \<subseteq> {..<T}"
    and fv: "face_voltage nodes triangle_nodes xi_eta weights e_inc jk_inc p = Some (J p)"
      "length (J p) = 3"
    and inv: "face_inv T n J D st"
  shows "\<exists>st'. voltage_face nodes triangle_nodes xi_eta weights e_inc jk_inc t p st = Some st' \<and>
           face_inv T n J (insert p D) st'"
proof -
  obtain nodes_p V_face where st: "st = (nodes_p, V_face)" by (cases st)
  have s0: "shape nodes_p = [n, 3, 3]" "length (buf nodes_p) = n * 9"
    and V: "shape V_face = [T, 3]" "length (buf V_face) = T * 3"
    using inv by (simp_all add: face_inv_def st)
  let ?V' = "V_face\<lparr>buf := take (p * 3) (buf V_face) @ J p @ drop (p * 3 + 3) (buf V_face)\<rparr>"
  obtain s' where r: "voltage_face nodes triangle_nodes xi_eta weights e_inc jk_inc t p st =
          Some (s', ?V')"
    and gi: "gather_inv nodes triangle_nodes t p nodes_p ({..<3} \<times> {..<3}) s'"
    using voltage_face_closed[OF ok T p t fv(1) s0 V] unfolding st by blast
  have s': "shape s' = [n, 3, 3]" "length (buf s') = n * 9"
    using gi s0 by (simp_all add: gather_inv_def)
  have old: "buf V_face ! (p' * 3 + a) = J p' ! a" if "p' \<in> D" "a < 3" for p' a
    using inv that by (simp add: face_inv_def st)
  have "face_inv T n J (insert p D) (s', ?V')"
    unfolding face_inv_def
  proof (intro conjI ballI)
    fix p' a :: nat
    assume a: "p' \<in> insert p D" "a \<in> {..<3}"
    show "buf (snd (s', ?V')) ! (p' * 3 + a) = J p' ! a"
    proof (cases "p' = p")
      case True
      then show ?thesis using write_row(2)[OF V(2) p fv(2), of a] a(2) by simp
    next
      case False
      then have "p' \<in> D" using a(1) by simp
      moreover from this have "p' < T" using D(2) by auto
      ultimately show ?thesis
        using write_row(3)[OF V(2) p fv(2), of p' a] a(2) False old[of p' a] by simp
    qed
  qed (use s' V write_row(1)[OF V(2) p fv(2)] in simp_all)
  then show ?thesis using r by simp
qed

lemma face_inv_final:
  assumes "face_inv T n J {..<T} (s, V)"
  shows "V = face_buffer T J"
proof -
  have sh: "shape V = [T, 3]" and len: "length (buf V) = T * 3"
    using assms by (simp_all add: face_inv_def)
  have cell: "buf V ! i = J (i div 3) ! (i mod 3)" if "i < T * 3" for i
  proof -
    have p: "i div 3 \<in> {..<T}" using that by (simp add: less_mult_imp_div_less)
    have a: "i mod 3 \<in> {..<3}" by simp
    have "\<forall>p \<in> {..<T}. \<forall>a \<in> {..<3}. buf V ! (p * 3 + a) = J p ! a"
      using assms by (simp add: face_inv_def)
    from bspec[OF bspec[OF this p] a] show ?thesis by simp
  qed
  have "buf V = map (\<lambda>i. J (i div 3) ! (i mod 3)) [0..<T * 3]"
    by (rule nth_equalityI) (use len cell in simp_all)
  then show ?thesis using sh by (simp add: face_buffer_def)
qed

lemma face_loop:
  assumes ok: "mesh_ok nodes triangle_nodes" and T: "shape triangle_nodes ! 0 = T"
    and th: "\<forall>p \<in> {..<T}. thr p < n"
    and ord: "distinct (map ord [0..<T])" "set (map ord [0..<T]) = {..<T}"
    and fv: "\<forall>p \<in> {..<T}.
        face_voltage nodes triangle_nodes xi_eta weights e_inc jk_inc p = Some (J p) \<and>
        length (J p) = 3"
  shows "\<exists>s. for_loop (map ord [0..<T])
            (\<lambda>p. voltage_face nodes triangle_nodes xi_eta weights e_inc jk_inc (thr p) p)
            (np_empty [n, 3, 3] mem, np_zeros [T, 3]) = Some (s, face_buffer T J)"
proof -
  let ?js = "map ord [0..<T]"
  have "\<exists>st. for_loop ?js
            (\<lambda>p. voltage_face nodes triangle_nodes xi_eta weights e_inc jk_inc (thr p) p)
            (np_empty [n, 3, 3] mem, np_zeros [T, 3]) = Some st \<and> face_inv T n J (set ?js) st"
  proof (rule for_loop_rule)
    show "distinct ?js" by (rule ord(1))
    show "face_inv T n J {} (np_empty [n, 3, 3] mem, np_zeros [T, 3])"
      by (simp add: face_inv_def np_empty_def np_zeros_def)
    fix p D st
    assume a: "p \<in> set ?js" "D \<subseteq> set ?js" "p \<notin> D" "face_inv T n J D st"
    have p: "p < T" using a(1) ord(2) by auto
    have D: "D \<subseteq> {..<T}" using a(2) ord(2) by simp
    have t: "thr p < n" using th p by simp
    have f: "face_voltage nodes triangle_nodes xi_eta weights e_inc jk_inc p = Some (J p)"
      "length (J p) = 3" using fv p by simp_all
    show "\<exists>st'. voltage_face nodes triangle_nodes xi_eta weights e_inc jk_inc (thr p) p st =
            Some st' \<and> face_inv T n J (insert p D) st'"
      by (rule voltage_face_inv[OF ok T p t a(3) D f a(4)])
  qed
  then obtain s V where r: "for_loop ?js
            (\<lambda>p. voltage_face nodes triangle_nodes xi_eta weights e_inc jk_inc (thr p) p)
            (np_empty [n, 3, 3] mem, np_zeros [T, 3]) = Some (s, V)"
    and inv: "face_inv T n J {..<T} (s, V)"
    unfolding ord(2) by auto
  show ?thesis using r face_inv_final[OF inv] by simp
qed

lemma face_buffer_getitem:
  assumes "0 \<le> i" "i < int T" "0 \<le> a" "a < 3"
  shows "getitem (face_buffer T J) [i, a] = Some (J (nat i) ! nat a)"
proof -
  define p where "p = nat i"
  define c where "c = nat a"
  have p: "i = int p" "p < T" using assms(1,2) by (simp_all add: p_def)
  have c: "a = int c" "c < 3" using assms(3,4) by (simp_all add: c_def)
  have off: "offset (shape (face_buffer T J)) [int p, int c] = int (p * 3 + c)"
    by (simp add: face_buffer_def)
  have lt: "p * 3 + c < T * 3" using p(2) c(2) by arith
  have d: "(p * 3 + c) div 3 = p" "(p * 3 + c) mod 3 = c" using c(2) by simp_all
  have b: "buf (face_buffer T J) ! (p * 3 + c) = J p ! c"
    unfolding face_buffer_def using lt c(2) by (simp add: d del: of_nat_add of_nat_mult)
  have l: "length (buf (face_buffer T J)) = T * 3" by (simp add: face_buffer_def)
  have "getitem (face_buffer T J) [int p, int c] = Some (J p ! c)"
    unfolding getitem_def load_def off b[symmetric] l using lt
    by (simp del: of_nat_add of_nat_mult)
  then show ?thesis by (simp add: p(1) c(1))
qed

lemma voltage_basis_step:
  assumes ok: "basis_ok tp tm np nm T" and m: "m < length tp" and V: "length V = length tp"
  shows "voltage_basis tp tm np nm (face_buffer T J) m V =
     Some (V[m := J (nat (tp ! m)) ! nat (np ! m) - J (nat (tm ! m)) ! nat (nm ! m)])"
proof -
  have len: "m < length tm" "m < length np" "m < length nm"
    using ok m by (simp_all add: basis_ok_def)
  have r: "0 \<le> tp ! m" "tp ! m < int T" "0 \<le> tm ! m" "tm ! m < int T"
    "0 \<le> np ! m" "np ! m < 3" "0 \<le> nm ! m" "nm ! m < 3"
    using ok m by (simp_all add: basis_ok_def)
  show ?thesis
    unfolding voltage_basis_def
    using m V
    by (simp add: load_nat len face_buffer_getitem r store_def)
qed

lemma basis_loop:
  assumes ok: "basis_ok tp tm np nm T"
    and ord: "distinct (map ord [0..<length tp])" "set (map ord [0..<length tp]) = {..<length tp}"
  shows "for_loop (map ord [0..<length tp]) (voltage_basis tp tm np nm (face_buffer T J))
           (replicate (length tp) 0) = Some (voltage_result tp tm np nm J)"
proof -
  let ?js = "map ord [0..<length tp]"
  let ?G = "\<lambda>m. J (nat (tp ! m)) ! nat (np ! m) - J (nat (tm ! m)) ! nat (nm ! m)"
  let ?Inv = "\<lambda>D V. length V = length tp \<and> (\<forall>m \<in> D. V ! m = ?G m)"
  have "\<exists>V. for_loop ?js (voltage_basis tp tm np nm (face_buffer T J))
           (replicate (length tp) 0) = Some V \<and> ?Inv (set ?js) V"
  proof (rule for_loop_rule)
    show "distinct ?js" by (rule ord(1))
    show "?Inv {} (replicate (length tp) 0)" by simp
    fix m D V
    assume a: "m \<in> set ?js" "D \<subseteq> set ?js" "m \<notin> D" "?Inv D V"
    have m: "m < length tp" using a(1) ord(2) by auto
    have V: "length V = length tp" using a(4) by simp
    show "\<exists>V'. voltage_basis tp tm np nm (face_buffer T J) m V = Some V' \<and> ?Inv (insert m D) V'"
      unfolding voltage_basis_step[OF ok m V]
      using a(3,4) m by (auto simp: nth_list_update)
  qed
  then obtain V where r: "for_loop ?js (voltage_basis tp tm np nm (face_buffer T J))
           (replicate (length tp) 0) = Some V"
    and inv: "length V = length tp" "\<forall>m \<in> {..<length tp}. V ! m = ?G m"
    unfolding ord(2) by auto
  have "V = voltage_result tp tm np nm J"
    unfolding voltage_result_def
    by (rule nth_equalityI) (use inv in simp_all)
  then show ?thesis using r by simp
qed

lemma voltage_plane_wave_closed:
  assumes ok: "mesh_ok nodes triangle_nodes"
    and b: "basis_ok tp tm np nm (shape triangle_nodes ! 0)"
    and e: "env_ok env (shape triangle_nodes ! 0) (length tp)"
    and fv: "\<forall>p \<in> {..<shape triangle_nodes ! 0}.
        face_voltage nodes triangle_nodes xi_eta weights e_inc jk_inc p = Some (J p) \<and>
        length (J p) = 3"
  shows "voltage_plane_wave env nodes triangle_nodes tp tm np nm xi_eta weights e_inc jk_inc =
           Some (voltage_result tp tm np nm J)"
proof -
  let ?T = "shape triangle_nodes ! 0"
  have th: "\<forall>p \<in> {..<?T}. thread_num env p < n_threads env"
    and o1: "distinct (map (order_p env) [0..<?T])" "set (map (order_p env) [0..<?T]) = {..<?T}"
    and o2: "distinct (map (order_m env) [0..<length tp])"
      "set (map (order_m env) [0..<length tp]) = {..<length tp}"
    using e by (simp_all add: env_ok_def)
  obtain s where f: "for_loop (map (order_p env) [0..<?T])
            (\<lambda>p. voltage_face nodes triangle_nodes xi_eta weights e_inc jk_inc (thread_num env p) p)
            (np_empty [n_threads env, 3, 3] (malloc_mem env), np_zeros [?T, 3]) =
          Some (s, face_buffer ?T J)"
    using face_loop[OF ok refl th o1 fv] by blast
  show ?thesis
    unfolding voltage_plane_wave_def Let_def f
    by (simp add: basis_loop[OF b o2])
qed

lemma triangle_coords_ok: "triangle_ok (triangle_coords nodes triangle_nodes p)"
  by (simp add: triangle_ok_def triangle_coords_def well_formed_def)

lemma face_voltage_closed:
  assumes "quadrature_ok xi_eta weights" "length e_inc = 3" "length jk_inc = 3"
  shows "face_voltage nodes triangle_nodes xi_eta weights e_inc jk_inc p =
     Some (integral_result xi_eta weights (triangle_coords nodes triangle_nodes p) jk_inc e_inc)"
  unfolding face_voltage_def
  by (rule source_integral_plane_wave_closed[OF assms(1) triangle_coords_ok assms(3,2)]) simp

lemma integral_result_length [simp]:
  "length (integral_result xi_eta weights nodes_o jk_inc e_inc) = 3"
  by (simp add: integral_result_def)

lemma integral_result_nth:
  "a < 3 \<Longrightarrow> integral_result xi_eta weights nodes_o jk_inc e_inc ! a =
     weighted_sum (\<lambda>s. exp (- s)) xi_eta weights nodes_o jk_inc e_inc a"
proof -
  assume "a < 3"
  then consider "a = 0" | "a = 1" | "a = 2" by arith
  then show ?thesis by cases (simp_all add: integral_result_def)
qed

lemma lt2: "{..<2::nat} = {0, 1}"
  by auto

lemma lt3: "{..<3::nat} = {0, 1, 2}"
  by auto

lemma faces_return:
  assumes "quadrature_ok xi_eta weights" "length e_inc = 3" "length jk_inc = 3"
  shows "\<forall>p \<in> {..<T}.
     face_voltage nodes triangle_nodes xi_eta weights e_inc jk_inc p =
       Some (integral_result xi_eta weights (triangle_coords nodes triangle_nodes p) jk_inc e_inc) \<and>
     length (integral_result xi_eta weights (triangle_coords nodes triangle_nodes p) jk_inc e_inc) = 3"
  using face_voltage_closed[OF assms] by simp

lemma voltage_result_nth:
  "m < length tp \<Longrightarrow> voltage_result tp tm np nm J ! m =
     J (nat (tp ! m)) ! nat (np ! m) - J (nat (tm ! m)) ! nat (nm ! m)"
  by (simp add: voltage_result_def)

lemma voltage_result_length [simp]: "length (voltage_result tp tm np nm J) = length tp"
  by (simp add: voltage_result_def)

lemma voltage_basis_closed:
  assumes ok: "basis_ok tp tm np nm T" and m: "m < length tp" and V: "length V = length tp"
    and Vf: "shape V_face = [T, 3]" "length (buf V_face) = T * 3"
  shows "voltage_basis tp tm np nm V_face m V =
     Some (V[m := elem V_face [tp ! m, np ! m] - elem V_face [tm ! m, nm ! m]])"
proof -
  have len: "m < length tm" "m < length np" "m < length nm"
    using ok m by (simp_all add: basis_ok_def)
  have r: "0 \<le> tp ! m" "tp ! m < int T" "0 \<le> tm ! m" "tm ! m < int T"
    "0 \<le> np ! m" "np ! m < 3" "0 \<le> nm ! m" "nm ! m < 3"
    using ok m by (simp_all add: basis_ok_def)
  have wf: "well_formed V_face" using Vf by (simp add: well_formed_def)
  have g: "getitem V_face [tp ! m, np ! m] = Some (elem V_face [tp ! m, np ! m])"
    "getitem V_face [tm ! m, nm ! m] = Some (elem V_face [tm ! m, nm ! m])"
    by (rule getitem_in_range[OF wf], simp add: in_range_def Vf r)+
  show ?thesis
    unfolding voltage_basis_def using m V by (simp add: load_nat len g store_def)
qed

section \<open>The converter over strided views\<close>

lemma peek_cell: "peek v idx \<noteq> None \<Longrightarrow> peek v idx = Some (cell v idx)"
  by (auto simp: cell_def)

lemma peek_table: "peek v [int m] \<noteq> None \<Longrightarrow> peek v [int m] = Some (table v m)"
  by (auto simp: table_def)

lemma view_cell_step:
  assumes ok: "view_reads_ok tp tm np nm vf sf"
    and m: "m < extent tp ! 0" and n: "n < extent tp ! 0"
    and V: "shape V = [extent tp ! 0, extent tp ! 0]" "length (buf V) = extent tp ! 0 * (extent tp ! 0)"
    and S: "shape S = [extent tp ! 0, extent tp ! 0]" "length (buf S) = extent tp ! 0 * (extent tp ! 0)"
  shows "rwg_cell_view tp tm np nm vf sf m (table tp m) (table tm m) (table np m) (table nm m) n (V, S) =
     Some (V\<lparr>buf := (buf V)[m * (extent tp ! 0) + n := vector_view_value tp tm np nm vf m n]\<rparr>,
           S\<lparr>buf := (buf S)[m * (extent tp ! 0) + n := scalar_view_value tp tm sf m n]\<rparr>)"
proof -
  have t: "peek tp [int n] = Some (table tp n)" "peek tm [int n] = Some (table tm n)"
    "peek np [int n] = Some (table np n)" "peek nm [int n] = Some (table nm n)"
    using ok n by (auto simp: view_reads_ok_def intro!: peek_table)
  have g: "peek vf [table tp m, table tp n, table np m, table np n]
             = Some (cell vf [table tp m, table tp n, table np m, table np n])"
    "peek vf [table tp m, table tm n, table np m, table nm n]
             = Some (cell vf [table tp m, table tm n, table np m, table nm n])"
    "peek vf [table tm m, table tp n, table nm m, table np n]
             = Some (cell vf [table tm m, table tp n, table nm m, table np n])"
    "peek vf [table tm m, table tm n, table nm m, table nm n]
             = Some (cell vf [table tm m, table tm n, table nm m, table nm n])"
    "peek sf [table tm m, table tp n] = Some (cell sf [table tm m, table tp n])"
    "peek sf [table tm m, table tm n] = Some (cell sf [table tm m, table tm n])"
    "peek sf [table tp m, table tp n] = Some (cell sf [table tp m, table tp n])"
    "peek sf [table tp m, table tm n] = Some (cell sf [table tp m, table tm n])"
    using ok m n by (auto simp: view_reads_ok_def intro!: peek_cell)
  show ?thesis
    unfolding rwg_cell_view_def
    by (simp add: t g setitem2[OF V m n] setitem2[OF S m n]
        vector_view_value_def scalar_view_value_def)
qed

lemma view_cell_inv:
  assumes ok: "view_reads_ok tp tm np nm vf sf"
    and m: "m < extent tp ! 0" and n: "n < extent tp ! 0"
    and C: "C \<subseteq> {..<extent tp ! 0} \<times> {..<extent tp ! 0}"
    and inv: "view_inv (extent tp ! 0) (vector_view_value tp tm np nm vf)
                (scalar_view_value tp tm sf) C st"
  shows "\<exists>st'. rwg_cell_view tp tm np nm vf sf m (table tp m) (table tm m) (table np m)
                  (table nm m) n st = Some st' \<and>
           view_inv (extent tp ! 0) (vector_view_value tp tm np nm vf)
             (scalar_view_value tp tm sf) (insert (m, n) C) st'"
proof -
  let ?B = "extent tp ! 0"
  obtain V S where st: "st = (V, S)" by (cases st)
  have V: "shape V = [?B, ?B]" "length (buf V) = ?B * ?B"
    and S: "shape S = [?B, ?B]" "length (buf S) = ?B * ?B"
    using inv by (simp_all add: view_inv_def st)
  have lt: "m * ?B + n < ?B * ?B" using m n by (rule cell_lt)
  have other: "m' = m \<and> n' = n"
    if "(m', n') \<in> C" "m * ?B + n = m' * ?B + n'" for m' n'
  proof -
    have "n' < ?B" using that(1) C by auto
    from cell_inj[OF n this that(2)] show ?thesis by simp
  qed
  have keep: "buf V ! (m' * ?B + n') = vector_view_value tp tm np nm vf m' n' \<and>
              buf S ! (m' * ?B + n') = scalar_view_value tp tm sf m' n'"
    if "(m', n') \<in> C" for m' n'
    using inv that by (auto simp: view_inv_def st)
  show ?thesis
    unfolding st view_cell_step[OF ok m n V S]
    using V S lt keep other
    by (auto simp: view_inv_def nth_list_update)
qed

lemma view_row_inv:
  assumes ok: "view_reads_ok tp tm np nm vf sf"
    and m: "m < extent tp ! 0" and D: "D \<subseteq> {..<extent tp ! 0}"
    and inv: "view_inv (extent tp ! 0) (vector_view_value tp tm np nm vf)
                (scalar_view_value tp tm sf) (D \<times> {..<extent tp ! 0}) st"
  shows "\<exists>st'. rwg_row_view tp tm np nm vf sf (extent tp ! 0) m st = Some st' \<and>
           view_inv (extent tp ! 0) (vector_view_value tp tm np nm vf)
             (scalar_view_value tp tm sf) (insert m D \<times> {..<extent tp ! 0}) st'"
proof -
  let ?B = "extent tp ! 0"
  let ?Inv = "\<lambda>E. view_inv ?B (vector_view_value tp tm np nm vf) (scalar_view_value tp tm sf)
                     (D \<times> {..<?B} \<union> {m} \<times> E)"
  have t: "peek tp [int m] = Some (table tp m)" "peek tm [int m] = Some (table tm m)"
    "peek np [int m] = Some (table np m)" "peek nm [int m] = Some (table nm m)"
    using ok m by (auto simp: view_reads_ok_def intro!: peek_table)
  have "\<exists>st'. for_loop [0..<?B]
          (rwg_cell_view tp tm np nm vf sf m (table tp m) (table tm m) (table np m) (table nm m)) st
            = Some st' \<and> ?Inv (set [0..<?B]) st'"
  proof (rule for_loop_rule)
    show "distinct [0..<?B]" by simp
    show "?Inv {} st" using inv by simp
    fix n E s
    assume a: "n \<in> set [0..<?B]" "E \<subseteq> set [0..<?B]" "?Inv E s"
    have n: "n < ?B" using a(1) by simp
    have C: "D \<times> {..<?B} \<union> {m} \<times> E \<subseteq> {..<?B} \<times> {..<?B}"
      using D m a(2) by auto
    have eq: "insert (m, n) (D \<times> {..<?B} \<union> {m} \<times> E) = D \<times> {..<?B} \<union> {m} \<times> insert n E"
      by auto
    show "\<exists>s'. rwg_cell_view tp tm np nm vf sf m (table tp m) (table tm m) (table np m)
                  (table nm m) n s = Some s' \<and> ?Inv (insert n E) s'"
      using view_cell_inv[OF ok m n C a(3)] unfolding eq .
  qed
  moreover have "D \<times> {..<?B} \<union> {m} \<times> set [0..<?B] = insert m D \<times> {..<?B}"
    by auto
  ultimately show ?thesis
    unfolding rwg_row_view_def by (simp add: t)
qed

lemma view_inv_final:
  assumes "view_inv B vv sv ({..<B} \<times> {..<B}) (V, S)"
  shows "(V, S) = view_result B vv sv"
proof -
  have cell: "buf V ! k = vv (k div B) (k mod B) \<and> buf S ! k = sv (k div B) (k mod B)"
    if "k < B * B" for k
  proof -
    have pos: "0 < B" using that by (cases "B = 0") simp_all
    have "k div B < B" using that by (simp add: less_mult_imp_div_less)
    moreover have "k mod B < B" using pos by simp
    ultimately have mem: "(k div B, k mod B) \<in> {..<B} \<times> {..<B}" by simp
    have "\<forall>(m, n) \<in> {..<B} \<times> {..<B}.
            buf V ! (m * B + n) = vv m n \<and> buf S ! (m * B + n) = sv m n"
      using assms by (simp add: view_inv_def)
    from bspec[OF this mem] show ?thesis by simp
  qed
  have "buf V = map (\<lambda>k. vv (k div B) (k mod B)) [0..<B * B]"
    using assms cell by (intro nth_equalityI) (simp_all add: view_inv_def)
  moreover have "buf S = map (\<lambda>k. sv (k div B) (k mod B)) [0..<B * B]"
    using assms cell by (intro nth_equalityI) (simp_all add: view_inv_def)
  moreover have "shape V = [B, B]" "shape S = [B, B]"
    using assms by (simp_all add: view_inv_def)
  ultimately show ?thesis
    unfolding view_result_def by simp
qed

lemma triangle_face_to_rwg_view_closed:
  assumes ok: "view_reads_ok tp tm np nm vf sf"
  shows "triangle_face_to_rwg_view mem_v mem_s tp tm np nm vf sf =
           Some (view_result (extent tp ! 0) (vector_view_value tp tm np nm vf)
                   (scalar_view_value tp tm sf))"
proof -
  let ?B = "extent tp ! 0"
  let ?Inv = "\<lambda>D. view_inv ?B (vector_view_value tp tm np nm vf) (scalar_view_value tp tm sf)
                     (D \<times> {..<?B})"
  let ?s0 = "(np_empty [?B, ?B] mem_v, np_empty [?B, ?B] mem_s)"
  have "\<exists>st'. for_loop [0..<?B] (rwg_row_view tp tm np nm vf sf ?B) ?s0 = Some st' \<and>
          ?Inv (set [0..<?B]) st'"
  proof (rule for_loop_rule)
    show "distinct [0..<?B]" by simp
    show "?Inv {} ?s0" by (simp add: view_inv_def np_empty_def)
    fix m D s
    assume a: "m \<in> set [0..<?B]" "D \<subseteq> set [0..<?B]" "?Inv D s"
    show "\<exists>s'. rwg_row_view tp tm np nm vf sf ?B m s = Some s' \<and> ?Inv (insert m D) s'"
      by (rule view_row_inv[OF ok]) (use a in auto)
  qed
  then obtain V S where r: "for_loop [0..<?B] (rwg_row_view tp tm np nm vf sf ?B) ?s0 = Some (V, S)"
    and inv: "view_inv ?B (vector_view_value tp tm np nm vf) (scalar_view_value tp tm sf)
                ({..<?B} \<times> {..<?B}) (V, S)"
    by (auto simp: atLeast0LessThan)
  show ?thesis
    unfolding triangle_face_to_rwg_view_def Let_def r
    using view_inv_final[OF inv] by simp
qed

lemma view_result_getitem:
  assumes "m < B" "n < B"
  shows "getitem (fst (view_result B vv sv)) [int m, int n] = Some (vv m n)"
    and "getitem (snd (view_result B vv sv)) [int m, int n] = Some (sv m n)"
proof -
  have lt: "m * B + n < B * B" using assms by (rule cell_lt)
  have e: "int m * int B + int n = int (m * B + n)" by simp
  have d: "(m * B + n) div B = m" using assms(2) by (rule cell_div)
  show "getitem (fst (view_result B vv sv)) [int m, int n] = Some (vv m n)"
    unfolding view_result_def getitem_def load_def using lt assms(2)
    by (simp add: e d del: of_nat_add of_nat_mult)
  show "getitem (snd (view_result B vv sv)) [int m, int n] = Some (sv m n)"
    unfolding view_result_def getitem_def load_def using lt assms(2)
    by (simp add: e d del: of_nat_add of_nat_mult)
qed

lemma view_cell_fails:
  assumes "peek vf [p_p, table tp n, ip_p, table np n] = None \<or>
           peek vf [p_p, table tm n, ip_p, table nm n] = None \<or>
           peek vf [p_m, table tp n, ip_m, table np n] = None \<or>
           peek vf [p_m, table tm n, ip_m, table nm n] = None \<or>
           peek sf [p_m, table tp n] = None \<or>
           peek sf [p_m, table tm n] = None \<or>
           peek sf [p_p, table tp n] = None \<or>
           peek sf [p_p, table tm n] = None"
  shows "rwg_cell_view tp tm np nm vf sf m p_p p_m ip_p ip_m n st = None"
proof -
  obtain V S where st: "st = (V, S)" by (cases st)
  show ?thesis
    unfolding st rwg_cell_view_def using assms
    by (auto simp: table_def split: Option.bind_splits)
qed

lemma view_row_fails_table:
  assumes "peek tp [int m] = None \<or> peek tm [int m] = None \<or>
           peek np [int m] = None \<or> peek nm [int m] = None"
  shows "rwg_row_view tp tm np nm vf sf B m st = None"
  unfolding rwg_row_view_def using assms
  by (auto split: Option.bind_splits)

lemma view_row_fails_cell:
  assumes n: "n < B"
    and bad: "peek vf [table tp m, table tp n, table np m, table np n] = None \<or>
           peek vf [table tp m, table tm n, table np m, table nm n] = None \<or>
           peek vf [table tm m, table tp n, table nm m, table np n] = None \<or>
           peek vf [table tm m, table tm n, table nm m, table nm n] = None \<or>
           peek sf [table tm m, table tp n] = None \<or>
           peek sf [table tm m, table tm n] = None \<or>
           peek sf [table tp m, table tp n] = None \<or>
           peek sf [table tp m, table tm n] = None"
  shows "rwg_row_view tp tm np nm vf sf B m st = None"
proof (cases "peek tp [int m] = None \<or> peek tm [int m] = None \<or>
           peek np [int m] = None \<or> peek nm [int m] = None")
  case True
  then show ?thesis by (rule view_row_fails_table)
next
  case False
  then have t: "peek tp [int m] = Some (table tp m)" "peek tm [int m] = Some (table tm m)"
    "peek np [int m] = Some (table np m)" "peek nm [int m] = Some (table nm m)"
    by (auto intro!: peek_table)
  have "for_loop [0..<B]
          (rwg_cell_view tp tm np nm vf sf m (table tp m) (table tm m) (table np m) (table nm m)) st
        = None"
    by (rule for_loop_fails[of n]) (use n in simp, rule view_cell_fails[OF bad])
  then show ?thesis unfolding rwg_row_view_def by (simp add: t)
qed

lemma triangle_face_to_rwg_view_fails:
  assumes "\<not> view_reads_ok tp tm np nm vf sf"
  shows "triangle_face_to_rwg_view mem_v mem_s tp tm np nm vf sf = None"
proof -
  let ?B = "extent tp ! 0"
  have "\<exists>m < ?B. \<forall>st. rwg_row_view tp tm np nm vf sf ?B m st = None"
  proof (cases "\<forall>m \<in> {..<?B}.
        peek tp [int m] \<noteq> None \<and> peek tm [int m] \<noteq> None \<and>
        peek np [int m] \<noteq> None \<and> peek nm [int m] \<noteq> None")
    case False
    then obtain m where m: "m < ?B" and
      bad: "peek tp [int m] = None \<or> peek tm [int m] = None \<or>
            peek np [int m] = None \<or> peek nm [int m] = None"
      by auto
    from view_row_fails_table[OF bad] m show ?thesis by blast
  next
    case True
    with assms obtain m n where m: "m < ?B" and n: "n < ?B" and
      bad: "peek vf [table tp m, table tp n, table np m, table np n] = None \<or>
           peek vf [table tp m, table tm n, table np m, table nm n] = None \<or>
           peek vf [table tm m, table tp n, table nm m, table np n] = None \<or>
           peek vf [table tm m, table tm n, table nm m, table nm n] = None \<or>
           peek sf [table tm m, table tp n] = None \<or>
           peek sf [table tm m, table tm n] = None \<or>
           peek sf [table tp m, table tp n] = None \<or>
           peek sf [table tp m, table tm n] = None"
      unfolding view_reads_ok_def by auto
    from view_row_fails_cell[OF n bad] m show ?thesis by blast
  qed
  then obtain m where m: "m < ?B"
    and f: "\<And>st. rwg_row_view tp tm np nm vf sf ?B m st = None" by blast
  have "for_loop [0..<?B] (rwg_row_view tp tm np nm vf sf ?B) st = None" for st
    by (rule for_loop_fails[of m]) (use m f in simp_all)
  then show ?thesis unfolding triangle_face_to_rwg_view_def Let_def by simp
qed

text \<open>
  On contiguous views the converter over strided views is the converter of the first
  embedding: the address of an index tuple is its row-major offset.
\<close>

lemma peek_list_view: "peek (list_view xs) [i] = load xs i"
  by (simp add: peek_def address_def list_view_def)

lemma c_strides2: "c_strides [a0, a1] = [int a1, 1]"
  by (simp add: c_strides_def upt_rec)

lemma c_strides4: "c_strides [a0, a1, a2, a3] = [int (a1 * a2 * a3), int (a2 * a3), int a3, 1]"
  by (simp add: c_strides_def upt_rec mult.assoc)

lemma shape4:
  "length (xs::nat list) = 4 \<Longrightarrow> xs = [xs ! 0, xs ! 1, xs ! 2, xs ! 3]"
  by (cases xs; cases "tl xs"; cases "tl (tl xs)"; cases "tl (tl (tl xs))"; simp)

lemma peek_contiguous2:
  assumes "length (shape a) = 2"
  shows "peek (contiguous_view a) [i, j] = getitem a [i, j]"
proof -
  have s: "shape a = [shape a ! 0, shape a ! 1]" using assms by (rule shape2)
  have "address (contiguous_view a) [i, j] = offset (shape a) [i, j]"
    unfolding address_def contiguous_view_def
    by (subst (1 2) s) (simp add: c_strides2 algebra_simps)
  then show ?thesis by (simp add: peek_def getitem_def contiguous_view_def)
qed

lemma peek_contiguous4:
  assumes "length (shape a) = 4"
  shows "peek (contiguous_view a) [p, q, i, j] = getitem a [p, q, i, j]"
proof -
  have s: "shape a = [shape a ! 0, shape a ! 1, shape a ! 2, shape a ! 3]"
    using assms by (rule shape4)
  have "address (contiguous_view a) [p, q, i, j] = offset (shape a) [p, q, i, j]"
    unfolding address_def contiguous_view_def
    by (subst (1 2) s) (simp add: c_strides4 algebra_simps)
  then show ?thesis by (simp add: peek_def getitem_def contiguous_view_def)
qed

lemma triangle_face_to_rwg_contiguous:
  assumes vf: "length (shape vf) = 4" and sf: "length (shape sf) = 2"
  shows "triangle_face_to_rwg_view mem_v mem_s (list_view tp) (list_view tm) (list_view np)
           (list_view nm) (contiguous_view vf) (contiguous_view sf)
         = triangle_face_to_rwg mem_v mem_s tp tm np nm vf sf"
proof -
  have cell: "rwg_cell_view (list_view tp) (list_view tm) (list_view np) (list_view nm)
                (contiguous_view vf) (contiguous_view sf) = rwg_cell tp tm np nm vf sf"
    unfolding rwg_cell_view_def rwg_cell_def
    by (simp add: peek_list_view peek_contiguous4[OF vf] peek_contiguous2[OF sf])
  have row: "rwg_row_view (list_view tp) (list_view tm) (list_view np) (list_view nm)
                (contiguous_view vf) (contiguous_view sf) = rwg_row tp tm np nm vf sf"
    unfolding rwg_row_view_def rwg_row_def cell
    by (simp add: peek_list_view)
  show ?thesis
    unfolding triangle_face_to_rwg_view_def triangle_face_to_rwg_def row
    by (simp add: list_view_def)
qed

section \<open>Linearity in the field amplitude\<close>

lemma weighted_sum_add:
  assumes "length e1 = 3" "length e2 = 3"
  shows "weighted_sum ph xi_eta weights nodes_o jk_inc (map2 (+) e1 e2) a =
     weighted_sum ph xi_eta weights nodes_o jk_inc e1 a +
     weighted_sum ph xi_eta weights nodes_o jk_inc e2 a"
proof -
  have n: "map2 (+) e1 e2 ! 0 = e1 ! 0 + e2 ! 0" "map2 (+) e1 e2 ! Suc 0 = e1 ! Suc 0 + e2 ! Suc 0"
    "map2 (+) e1 e2 ! 2 = e1 ! 2 + e2 ! 2"
    using assms by simp_all
  have "point_term ph xi_eta weights nodes_o jk_inc (map2 (+) e1 e2) k a =
      point_term ph xi_eta weights nodes_o jk_inc e1 k a +
      point_term ph xi_eta weights nodes_o jk_inc e2 k a" for k
    by (simp add: point_term_def sum3 n algebra_simps)
  then show ?thesis by (simp add: weighted_sum_def sum.distrib)
qed

lemma weighted_sum_zero:
  "weighted_sum ph xi_eta weights nodes_o jk_inc [0, 0, 0] a = 0"
  by (simp add: weighted_sum_def point_term_def sum3)

lemma integral_result_add:
  assumes "length e1 = 3" "length e2 = 3"
  shows "integral_result xi_eta weights nodes_o jk_inc (map2 (+) e1 e2) =
     map2 (+) (integral_result xi_eta weights nodes_o jk_inc e1)
       (integral_result xi_eta weights nodes_o jk_inc e2)"
  by (simp add: integral_result_def weighted_sum_add[OF assms])

lemma integral_result_zero:
  "integral_result xi_eta weights nodes_o jk_inc [0, 0, 0] = [0, 0, 0]"
  by (simp add: integral_result_def weighted_sum_zero)

lemma voltage_result_add:
  assumes ok: "basis_ok tp tm np nm T"
    and len: "\<And>p. length (J1 p) = 3" "\<And>p. length (J2 p) = 3"
  shows "voltage_result tp tm np nm (\<lambda>p. map2 (+) (J1 p) (J2 p)) =
     map2 (+) (voltage_result tp tm np nm J1) (voltage_result tp tm np nm J2)"
proof (rule nth_equalityI)
  show "length (voltage_result tp tm np nm (\<lambda>p. map2 (+) (J1 p) (J2 p))) =
      length (map2 (+) (voltage_result tp tm np nm J1) (voltage_result tp tm np nm J2))"
    by simp
  fix m
  assume "m < length (voltage_result tp tm np nm (\<lambda>p. map2 (+) (J1 p) (J2 p)))"
  then have m: "m < length tp" by simp
  have "0 \<le> np ! m" "np ! m < 3" "0 \<le> nm ! m" "nm ! m < 3"
    using ok m by (simp_all add: basis_ok_def)
  then have a: "nat (np ! m) < 3" "nat (nm ! m) < 3" by simp_all
  show "voltage_result tp tm np nm (\<lambda>p. map2 (+) (J1 p) (J2 p)) ! m =
      map2 (+) (voltage_result tp tm np nm J1) (voltage_result tp tm np nm J2) ! m"
    using m a by (simp add: voltage_result_nth len)
qed

lemma voltage_result_zero:
  assumes ok: "basis_ok tp tm np nm T"
  shows "voltage_result tp tm np nm (\<lambda>p. [0, 0, 0]) = replicate (length tp) 0"
proof (rule nth_equalityI)
  show "length (voltage_result tp tm np nm (\<lambda>p. [0, 0, 0])) = length (replicate (length tp) (0::complex))"
    by simp
  fix m
  assume "m < length (voltage_result tp tm np nm (\<lambda>p. [0, 0, 0]))"
  then have m: "m < length tp" by simp
  have "0 \<le> np ! m" "np ! m < 3" "0 \<le> nm ! m" "nm ! m < 3"
    using ok m by (simp_all add: basis_ok_def)
  then have a: "nat (np ! m) < 3" "nat (nm ! m) < 3" by simp_all
  have z: "[0, 0, 0::complex] ! k = 0" if "k < 3" for k
  proof -
    from that consider "k = 0" | "k = 1" | "k = 2" by arith
    then show ?thesis by cases simp_all
  qed
  show "voltage_result tp tm np nm (\<lambda>p. [0, 0, 0]) ! m = replicate (length tp) 0 ! m"
    using m a by (simp add: voltage_result_nth z)
qed

section \<open>A zero field over doubles with overflow\<close>

lemma dbl_max_ge: "2 ^ 1023 \<le> dbl_max"
proof -
  have "(1::real) \<le> 2 - 1 / 2 ^ 52" by simp
  then have "1 * (2::real) ^ 1023 \<le> (2 - 1 / 2 ^ 52) * 2 ^ 1023"
    by (rule mult_right_mono) simp
  then show ?thesis by (simp add: dbl_max_def)
qed

lemma dbl_max_lt: "dbl_max < 2 ^ 1024"
proof -
  have "(2 - 1 / 2 ^ 52) * (2::real) ^ 1023 < 2 * 2 ^ 1023"
    by (rule mult_strict_right_mono) simp_all
  then show ?thesis by (simp add: dbl_max_def)
qed

lemma overflow_small: "\<bar>x\<bar> \<le> 1000000 \<Longrightarrow> overflow x = Fin x"
proof -
  assume a: "\<bar>x\<bar> \<le> 1000000"
  have "(1000000::real) \<le> 2 ^ 20" by simp
  also have "\<dots> \<le> 2 ^ 1023" by (rule power_increasing) simp_all
  also have "\<dots> \<le> dbl_max" by (rule dbl_max_ge)
  finally have "\<bar>x\<bar> \<le> dbl_max" using a by simp
  then show ?thesis by (auto simp: overflow_def)
qed

lemma overflow_0 [simp]: "overflow 0 = Fin 0"
  by (rule overflow_small) simp

lemma exp_ge_pow2: "2 ^ n \<le> exp (real n)"
proof -
  have "(2::real) \<le> exp 1" using exp_ge_add_one_self[of 1] by simp
  then have "(2::real) ^ n \<le> exp 1 ^ n" by (rule power_mono) simp
  also have "\<dots> = exp (real n)" using exp_of_nat_mult[of n "1::real"] by simp
  finally show ?thesis .
qed

lemma exp_overflows: "1024 \<le> x \<Longrightarrow> overflow (exp x) = PosInf"
proof -
  assume a: "1024 \<le> x"
  have "dbl_max < 2 ^ 1024" by (rule dbl_max_lt)
  also have "\<dots> \<le> exp (real 1024)" by (rule exp_ge_pow2)
  also have "\<dots> \<le> exp x" using a by simp
  finally show ?thesis by (simp add: overflow_def)
qed

lemma cmul_inf_zero: "cmul (PosInf, NaN) (Fin 0, Fin 0) = (NaN, NaN)"
  by (simp add: cmul_def dsub_def cmul_recover_def Let_def)

lemma cmul_fin_zero: "cmul (Fin a, Fin b) (Fin 0, Fin 0) = (Fin 0, Fin 0)"
  by (simp add: cmul_def dsub_def cmul_recover_def Let_def)

lemma cmul_zero_fin: "cmul (Fin 0, Fin 0) (Fin a, Fin b) = (Fin 0, Fin 0)"
  by (simp add: cmul_def dsub_def cmul_recover_def Let_def)

lemma is_fin_conv: "is_fin x \<longleftrightarrow> (\<exists>r. x = Fin r)"
  by (cases x) simp_all

lemma list3:
  assumes "length xs = 3"
  shows "xs = [xs ! 0, xs ! 1, xs ! 2]"
  using assms by (cases xs; cases "tl xs"; cases "tl (tl xs)"; simp)

lemma dot3_fp:
  assumes "length a = 3" "length b = 3"
  shows "dot_product_fp 3 a b =
     Some (cadd (cadd (cadd (creal_fp (Fin 0)) (cmul (a ! 0) (creal_fp (b ! 0))))
                   (cmul (a ! 1) (creal_fp (b ! 1))))
             (cmul (a ! 2) (creal_fp (b ! 2))))"
  unfolding dot_product_fp_def upt3
  using assms by (simp add: load_def)

lemma cadd_czero [simp]: "cadd czero czero = czero"
  by (simp add: cadd_def czero_def)

lemma creal_fp_zero [simp]: "creal_fp (Fin 0) = czero"
  by (simp add: creal_fp_def czero_def)

lemma cfin_zero [simp]: "cfin 0 = czero"
  by (simp add: cfin_def czero_def)

lemma csub_czero [simp]: "csub czero czero = czero"
  by (simp add: csub_def czero_def dsub_def)

lemma cmul_czero_left: "is_fin x \<Longrightarrow> cmul czero (creal_fp x) = czero"
  by (auto simp: is_fin_conv czero_def creal_fp_def cmul_zero_fin)

lemma cmul_czero_right: "is_fin (fst z) \<Longrightarrow> is_fin (snd z) \<Longrightarrow> cmul z czero = czero"
  by (cases z) (auto simp: is_fin_conv czero_def cmul_fin_zero)

lemma dot_zero:
  assumes "length b = 3" "list_all is_fin b"
  shows "dot_product_fp 3 [czero, czero, czero] b = Some czero"
proof -
  have b: "b = [b ! 0, b ! 1, b ! 2]" using assms(1) by (rule list3)
  have "list_all is_fin [b ! 0, b ! 1, b ! 2]" using assms(2) b by simp
  then have f: "is_fin (b ! 0)" "is_fin (b ! 1)" "is_fin (b ! 2)" by simp_all
  show ?thesis
    using dot3_fp[OF _ assms(1), of "[czero, czero, czero]"] f
    by (simp add: cmul_czero_left)
qed

lemma those3:
  "those [a, b, c] = Some xs \<Longrightarrow> \<exists>x y z. a = Some x \<and> b = Some y \<and> c = Some z \<and> xs = [x, y, z]"
  by (auto split: option.splits)

lemma point_geometry_shape:
  assumes "point_geometry_fp xi_eta weights nodes_o jk_inc k = Some (w, rho, ex)"
  shows "is_fin w \<and> length rho = 3 \<and> length (rho ! 0) = 3 \<and> length (rho ! 1) = 3 \<and>
         length (rho ! 2) = 3"
  using assms unfolding point_geometry_fp_def upt3
  by (auto simp: Let_def split: Option.bind_splits dest!: those3)

lemma nth3_all:
  assumes "list_all P xs" "length xs = 3"
  shows "P (xs ! 0)" "P (xs ! 1)" "P (xs ! 2)"
  using assms by (simp_all add: list_all_length)

lemma zero_field_point:
  assumes g: "geometry_finite xi_eta weights nodes_o jk_inc k"
  shows "source_integral_point_fp xi_eta weights nodes_o jk_inc [0, 0, 0] k [czero, czero, czero]
           = Some [czero, czero, czero]"
proof -
  obtain w rho ex where p: "point_geometry_fp xi_eta weights nodes_o jk_inc k = Some (w, rho, ex)"
    and f: "finite_point (w, rho, ex)"
    using g unfolding geometry_finite_def by (auto split: option.splits)
  have sh: "is_fin w" "length rho = 3" "length (rho ! 0) = 3" "length (rho ! 1) = 3"
    "length (rho ! 2) = 3"
    using point_geometry_shape[OF p] by simp_all
  have ex: "is_fin (fst ex)" "is_fin (snd ex)" and all: "list_all (list_all is_fin) rho"
    using f by (simp_all add: finite_point_def)
  have rows: "list_all is_fin (rho ! 0)" "list_all is_fin (rho ! 1)" "list_all is_fin (rho ! 2)"
    using nth3_all[OF all sh(2)] by simp_all
  have d: "dot_product_fp 3 [czero, czero, czero] (rho ! 0) = Some czero"
    "dot_product_fp 3 [czero, czero, czero] (rho ! 1) = Some czero"
    "dot_product_fp 3 [czero, czero, czero] (rho ! 2) = Some czero"
    using dot_zero sh rows by simp_all
  show ?thesis
    unfolding source_integral_point_fp_def p upt3
    using d by (simp add: load_def store_def cmul_czero_right[OF ex] cmul_czero_left[OF sh(1)])
qed

lemma zero_field_integral:
  assumes n: "shape xi_eta ! 0 = length weights"
    and g: "\<forall>k \<in> {..<length weights}. geometry_finite xi_eta weights nodes_o jk_inc k"
    and I: "length I = 3"
  shows "source_integral_plane_wave_fp xi_eta weights nodes_o jk_inc [0, 0, 0] I
           = Some [czero, czero, czero]"
proof -
  let ?n = "length weights"
  let ?Inv = "\<lambda>(D::nat set) J. J = [czero, czero, czero]"
  have "\<exists>J. for_loop [0..<?n] (source_integral_point_fp xi_eta weights nodes_o jk_inc [0, 0, 0])
              [czero, czero, czero] = Some J \<and> ?Inv (set [0..<?n]) J"
  proof (rule for_loop_rule)
    show "distinct [0..<?n]" by simp
    show "?Inv {} [czero, czero, czero]" by simp
    fix k D J
    assume a: "k \<in> set [0..<?n]" "?Inv D J"
    have "geometry_finite xi_eta weights nodes_o jk_inc k" using a(1) g by simp
    from zero_field_point[OF this]
    show "\<exists>J'. source_integral_point_fp xi_eta weights nodes_o jk_inc [0, 0, 0] k J = Some J' \<and>
            ?Inv (insert k D) J'"
      unfolding a(2) by simp
  qed
  then show ?thesis
    unfolding source_integral_plane_wave_fp_def Let_def n I replicate3 by simp
qed

lemma zero_row:
  assumes "p < T"
  shows "take (p * 3) (replicate (T * 3) x) @ [x, x, x] @ drop (p * 3 + 3) (replicate (T * 3) x)
           = replicate (T * 3) x"
proof -
  have "p * 3 + 3 \<le> T * 3" using assms by arith
  then have "p * 3 + (3 + (T * 3 - (p * 3 + 3))) = T * 3" by arith
  then have "replicate (T * 3) x =
      replicate (p * 3) x @ replicate 3 x @ replicate (T * 3 - (p * 3 + 3)) x"
    by (simp only: replicate_add[symmetric])
  moreover have "min (T * 3) (p * 3) = p * 3" using assms by arith
  ultimately show ?thesis by (simp add: replicate3)
qed

lemma voltage_face_fp_zero:
  assumes ok: "mesh_ok nodes triangle_nodes" and T: "shape triangle_nodes ! 0 = T"
    and p: "p < T" and t: "t < n"
    and q: "shape xi_eta ! 0 = length weights"
    and g: "\<forall>k \<in> {..<length weights}.
              geometry_finite xi_eta weights (triangle_coords nodes triangle_nodes p) jk_inc k"
    and s0: "shape nodes_p = [n, 3, 3]" "length (buf nodes_p) = n * 9"
  shows "\<exists>s'. voltage_face_fp nodes triangle_nodes xi_eta weights [0, 0, 0] jk_inc t p
                 (nodes_p, np_zeros_fp [T, 3]) = Some (s', np_zeros_fp [T, 3]) \<and>
           shape s' = [n, 3, 3] \<and> length (buf s') = n * 9"
proof -
  have p': "p < shape triangle_nodes ! 0" using p T by simp
  obtain s' where gn: "gather_nodes nodes triangle_nodes t p nodes_p = Some s'"
    and gi: "gather_inv nodes triangle_nodes t p nodes_p ({..<3} \<times> {..<3}) s'"
    using gather_nodes_inv[OF ok p' s0 t] by blast
  have sub: "subarray s' t = triangle_coords nodes triangle_nodes p"
    by (rule gather_subarray[OF gi s0 t])
  have s': "shape s' = [n, 3, 3]" "length (buf s') = n * 9"
    using gi s0 by (simp_all add: gather_inv_def)
  have "length (buf (subarray (np_zeros_fp [T, 3]) p)) = 3"
    using p by (simp add: subarray_def np_zeros_fp_def)
  from zero_field_integral[OF q g this]
  have I: "source_integral_plane_wave_fp xi_eta weights (triangle_coords nodes triangle_nodes p)
          jk_inc [0, 0, 0] (buf (subarray (np_zeros_fp [T, 3]) p)) = Some [czero, czero, czero]" .
  have w: "write_back (np_zeros_fp [T, 3]) p [czero, czero, czero] = np_zeros_fp [T, 3]"
    using zero_row[OF p, of czero] by (simp add: write_back_def np_zeros_fp_def)
  have "voltage_face_fp nodes triangle_nodes xi_eta weights [0, 0, 0] jk_inc t p
          (nodes_p, np_zeros_fp [T, 3]) = Some (s', np_zeros_fp [T, 3])"
    unfolding voltage_face_fp_def by (simp add: gn sub I w)
  then show ?thesis using s' by simp
qed

lemma face_loop_fp_zero:
  assumes ok: "mesh_ok nodes triangle_nodes" and T: "shape triangle_nodes ! 0 = T"
    and th: "\<forall>p \<in> {..<T}. thr p < n"
    and ord: "distinct (map ord [0..<T])" "set (map ord [0..<T]) = {..<T}"
    and q: "shape xi_eta ! 0 = length weights"
    and g: "\<forall>p \<in> {..<T}. \<forall>k \<in> {..<length weights}.
              geometry_finite xi_eta weights (triangle_coords nodes triangle_nodes p) jk_inc k"
  shows "\<exists>s. for_loop (map ord [0..<T])
            (\<lambda>p. voltage_face_fp nodes triangle_nodes xi_eta weights [0, 0, 0] jk_inc (thr p) p)
            (np_empty [n, 3, 3] mem, np_zeros_fp [T, 3]) = Some (s, np_zeros_fp [T, 3])"
proof -
  let ?js = "map ord [0..<T]"
  let ?Inv = "\<lambda>(D::nat set) (st::real ndarray \<times> cdbl ndarray). shape (fst st) = [n, 3, 3] \<and> length (buf (fst st)) = n * 9 \<and>
                 snd st = np_zeros_fp [T, 3]"
  have "\<exists>st. for_loop ?js
            (\<lambda>p. voltage_face_fp nodes triangle_nodes xi_eta weights [0, 0, 0] jk_inc (thr p) p)
            (np_empty [n, 3, 3] mem, np_zeros_fp [T, 3]) = Some st \<and> ?Inv (set ?js) st"
  proof (rule for_loop_rule)
    show "distinct ?js" by (rule ord(1))
    show "?Inv {} (np_empty [n, 3, 3] mem, np_zeros_fp [T, 3])"
      by (simp add: np_empty_def)
    fix p D st
    assume a: "p \<in> set ?js" "?Inv D st"
    obtain nodes_p where st: "st = (nodes_p, np_zeros_fp [T, 3])"
      using a(2) by (cases st) simp
    have s0: "shape nodes_p = [n, 3, 3]" "length (buf nodes_p) = n * 9"
      using a(2) by (simp_all add: st)
    have p: "p < T" using a(1) ord(2) by auto
    have t: "thr p < n" using th p by simp
    have gp: "\<forall>k \<in> {..<length weights}.
              geometry_finite xi_eta weights (triangle_coords nodes triangle_nodes p) jk_inc k"
      using g p by simp
    show "\<exists>st'. voltage_face_fp nodes triangle_nodes xi_eta weights [0, 0, 0] jk_inc (thr p) p st =
            Some st' \<and> ?Inv (insert p D) st'"
      using voltage_face_fp_zero[OF ok T p t q gp s0] unfolding st by auto
  qed
  then show ?thesis by (cases) auto
qed

lemma np_zeros_fp_getitem:
  assumes "0 \<le> i" "i < int T" "0 \<le> a" "a < 3"
  shows "getitem (np_zeros_fp [T, 3]) [i, a] = Some czero"
proof -
  have "0 \<le> i * 3 + a" using assms by simp
  moreover have "i * 3 + a < int (T * 3)" using assms by simp
  moreover from calculation have "nat (i * 3 + a) < T * 3" by simp
  ultimately show ?thesis
    by (simp add: getitem_def load_def np_zeros_fp_def)
qed

lemma voltage_basis_fp_zero:
  assumes ok: "basis_ok tp tm np nm T" and m: "m < length tp"
  shows "voltage_basis_fp tp tm np nm (np_zeros_fp [T, 3]) m (replicate (length tp) czero) =
     Some (replicate (length tp) czero)"
proof -
  have len: "m < length tm" "m < length np" "m < length nm"
    using ok m by (simp_all add: basis_ok_def)
  have r: "0 \<le> tp ! m" "tp ! m < int T" "0 \<le> tm ! m" "tm ! m < int T"
    "0 \<le> np ! m" "np ! m < 3" "0 \<le> nm ! m" "nm ! m < 3"
    using ok m by (simp_all add: basis_ok_def)
  have "(replicate (length tp) czero)[m := czero] = replicate (length tp) czero"
    by (rule nth_equalityI) (use m in \<open>simp_all add: nth_list_update\<close>)
  then show ?thesis
    unfolding voltage_basis_fp_def
    using m by (simp add: load_nat len np_zeros_fp_getitem r store_def)
qed

lemma basis_loop_fp_zero:
  assumes ok: "basis_ok tp tm np nm T"
    and ord: "set (map ord [0..<length tp]) = {..<length tp}"
  shows "for_loop (map ord [0..<length tp]) (voltage_basis_fp tp tm np nm (np_zeros_fp [T, 3]))
           (replicate (length tp) czero) = Some (replicate (length tp) czero)"
proof -
  have "for_loop js (voltage_basis_fp tp tm np nm (np_zeros_fp [T, 3]))
           (replicate (length tp) czero) = Some (replicate (length tp) czero)"
    if "set js \<subseteq> {..<length tp}" for js
    using that
  proof (induction js)
    case Nil
    then show ?case by simp
  next
    case (Cons j js)
    have "j < length tp" using Cons.prems by simp
    from voltage_basis_fp_zero[OF ok this] Cons show ?case by simp
  qed
  then show ?thesis using ord by simp
qed

lemma voltage_plane_wave_fp_zero:
  assumes ok: "mesh_ok nodes triangle_nodes"
    and b: "basis_ok tp tm np nm (shape triangle_nodes ! 0)"
    and q: "quadrature_ok xi_eta weights"
    and e: "env_ok env (shape triangle_nodes ! 0) (length tp)"
    and g: "\<forall>p \<in> {..<shape triangle_nodes ! 0}. \<forall>k \<in> {..<length weights}.
              geometry_finite xi_eta weights (triangle_coords nodes triangle_nodes p) jk_inc k"
  shows "voltage_plane_wave_fp env nodes triangle_nodes tp tm np nm xi_eta weights [0, 0, 0] jk_inc
           = Some (replicate (length tp) czero)"
proof -
  let ?T = "shape triangle_nodes ! 0"
  have th: "\<forall>p \<in> {..<?T}. thread_num env p < n_threads env"
    and o1: "distinct (map (order_p env) [0..<?T])" "set (map (order_p env) [0..<?T]) = {..<?T}"
    and o2: "set (map (order_m env) [0..<length tp]) = {..<length tp}"
    using e by (simp_all add: env_ok_def)
  have n: "shape xi_eta ! 0 = length weights" using q by (simp add: quadrature_ok_def)
  obtain s where f: "for_loop (map (order_p env) [0..<?T])
            (\<lambda>p. voltage_face_fp nodes triangle_nodes xi_eta weights [0, 0, 0] jk_inc
                   (thread_num env p) p)
            (np_empty [n_threads env, 3, 3] (malloc_mem env), np_zeros_fp [?T, 3]) =
          Some (s, np_zeros_fp [?T, 3])"
    using face_loop_fp_zero[OF ok refl th o1 n g] by blast
  show ?thesis
    unfolding voltage_plane_wave_fp_def Let_def f
    by (simp add: basis_loop_fp_zero[OF b o2])
qed

lemma integral_fp_ignores_I:
  "length I = 3 \<Longrightarrow>
   source_integral_plane_wave_fp xi_eta weights nodes_o jk_inc e_inc I =
   source_integral_plane_wave_fp xi_eta weights nodes_o jk_inc e_inc [czero, czero, czero]"
  by (simp add: source_integral_plane_wave_fp_def replicate3)

lemma voltage_face_fp_closed:
  assumes ok: "mesh_ok nodes triangle_nodes" and T: "shape triangle_nodes ! 0 = T"
    and p: "p < T" and t: "t < n"
    and fv: "face_voltage_fp nodes triangle_nodes xi_eta weights e_inc jk_inc p = Some J"
    and s0: "shape nodes_p = [n, 3, 3]" "length (buf nodes_p) = n * 9"
    and V: "shape V_face = [T, 3]" "length (buf V_face) = T * 3"
  shows "\<exists>s'. voltage_face_fp nodes triangle_nodes xi_eta weights e_inc jk_inc t p (nodes_p, V_face) =
           Some (s', V_face\<lparr>buf := take (p * 3) (buf V_face) @ J @ drop (p * 3 + 3) (buf V_face)\<rparr>) \<and>
           shape s' = [n, 3, 3] \<and> length (buf s') = n * 9"
proof -
  have p': "p < shape triangle_nodes ! 0" using p T by simp
  obtain s' where g: "gather_nodes nodes triangle_nodes t p nodes_p = Some s'"
    and gi: "gather_inv nodes triangle_nodes t p nodes_p ({..<3} \<times> {..<3}) s'"
    using gather_nodes_inv[OF ok p' s0 t] by blast
  have sub: "subarray s' t = triangle_coords nodes triangle_nodes p"
    by (rule gather_subarray[OF gi s0 t])
  have s': "shape s' = [n, 3, 3]" "length (buf s') = n * 9"
    using gi s0 by (simp_all add: gather_inv_def)
  have "length (buf (subarray V_face p)) = 3"
    using V p by (simp add: subarray_def)
  from integral_fp_ignores_I[OF this]
  have I: "source_integral_plane_wave_fp xi_eta weights (triangle_coords nodes triangle_nodes p)
          jk_inc e_inc (buf (subarray V_face p)) = Some J"
    using fv unfolding face_voltage_fp_def by (rule trans)
  have "voltage_face_fp nodes triangle_nodes xi_eta weights e_inc jk_inc t p (nodes_p, V_face) =
          Some (s', write_back V_face p J)"
    unfolding voltage_face_fp_def by (simp add: g sub I)
  moreover have "write_back V_face p J =
          V_face\<lparr>buf := take (p * 3) (buf V_face) @ J @ drop (p * 3 + 3) (buf V_face)\<rparr>"
    by (simp add: write_back_def V(1))
  ultimately show ?thesis using s' by simp
qed

lemma cmul_inf_czero: "cmul (PosInf, NaN) czero = (NaN, NaN)"
  by (simp add: czero_def cmul_inf_zero)

lemma cmul_nan_czero: "cmul (NaN, NaN) czero = (NaN, NaN)"
  by (simp add: cmul_def dsub_def cmul_recover_def czero_def Let_def)

lemma cmul_nan_left: "cmul (NaN, NaN) (creal_fp (Fin x)) = (NaN, NaN)"
  by (simp add: cmul_def dsub_def cmul_recover_def creal_fp_def Let_def)

lemma cadd_nan_right: "cadd z (NaN, NaN) = (NaN, NaN)"
  by (cases "fst z"; cases "snd z"; simp add: cadd_def)

section \<open>Exchanging plus and minus\<close>

lemma rwg_reads_ok_swap:
  assumes ok: "rwg_reads_ok tp tm np nm vf sf" and m: "m < length tp"
  shows "rwg_reads_ok (swap_plus_minus tp tm m) (swap_plus_minus tm tp m)
           (swap_plus_minus np nm m) (swap_plus_minus nm np m) vf sf"
proof -
  have len: "length tp \<le> length tm" "length tp \<le> length np" "length tp \<le> length nm"
    using ok by (simp_all add: rwg_reads_ok_def)
  have r: "getitem vf [tp ! i, tp ! j, np ! i, np ! j] \<noteq> None"
    "getitem vf [tp ! i, tm ! j, np ! i, nm ! j] \<noteq> None"
    "getitem vf [tm ! i, tp ! j, nm ! i, np ! j] \<noteq> None"
    "getitem vf [tm ! i, tm ! j, nm ! i, nm ! j] \<noteq> None"
    "getitem sf [tm ! i, tp ! j] \<noteq> None"
    "getitem sf [tm ! i, tm ! j] \<noteq> None"
    "getitem sf [tp ! i, tp ! j] \<noteq> None"
    "getitem sf [tp ! i, tm ! j] \<noteq> None"
    if "i < length tp" "j < length tp" for i j
    using ok that by (simp_all add: rwg_reads_ok_def)
  show ?thesis
    unfolding rwg_reads_ok_def swap_plus_minus_def
  proof (intro conjI ballI)
    fix i j
    assume a: "i \<in> {..<length (tp[m := tm ! m])}" "j \<in> {..<length (tp[m := tm ! m])}"
    then have ij: "i < length tp" "j < length tp" by simp_all
    have l: "i < length tm" "i < length np" "i < length nm"
      "j < length tm" "j < length np" "j < length nm" using ij len by simp_all
    note rr = r[OF ij] r[OF m ij(2)] r[OF ij(1) m] r[OF m m]
    show "getitem vf [tp[m := tm ! m] ! i, tp[m := tm ! m] ! j, np[m := nm ! m] ! i, np[m := nm ! m] ! j] \<noteq> None"
      using rr ij l m len by (cases "i = m"; cases "j = m"; simp)
    show "getitem vf [tp[m := tm ! m] ! i, tm[m := tp ! m] ! j, np[m := nm ! m] ! i, nm[m := np ! m] ! j] \<noteq> None"
      using rr ij l m len by (cases "i = m"; cases "j = m"; simp)
    show "getitem vf [tm[m := tp ! m] ! i, tp[m := tm ! m] ! j, nm[m := np ! m] ! i, np[m := nm ! m] ! j] \<noteq> None"
      using rr ij l m len by (cases "i = m"; cases "j = m"; simp)
    show "getitem vf [tm[m := tp ! m] ! i, tm[m := tp ! m] ! j, nm[m := np ! m] ! i, nm[m := np ! m] ! j] \<noteq> None"
      using rr ij l m len by (cases "i = m"; cases "j = m"; simp)
    show "getitem sf [tm[m := tp ! m] ! i, tp[m := tm ! m] ! j] \<noteq> None"
      using rr ij l m len by (cases "i = m"; cases "j = m"; simp)
    show "getitem sf [tm[m := tp ! m] ! i, tm[m := tp ! m] ! j] \<noteq> None"
      using rr ij l m len by (cases "i = m"; cases "j = m"; simp)
    show "getitem sf [tp[m := tm ! m] ! i, tp[m := tm ! m] ! j] \<noteq> None"
      using rr ij l m len by (cases "i = m"; cases "j = m"; simp)
    show "getitem sf [tp[m := tm ! m] ! i, tm[m := tp ! m] ! j] \<noteq> None"
      using rr ij l m len by (cases "i = m"; cases "j = m"; simp)
  qed (use len in simp_all)
qed

lemma rwg_value_swap:
  assumes len: "length tp \<le> length tm" "length tp \<le> length np" "length tp \<le> length nm"
    and m: "m < length tp" and i: "i < length tp" and j: "j < length tp"
  shows "vector_rwg_value (swap_plus_minus tp tm m) (swap_plus_minus tm tp m)
           (swap_plus_minus np nm m) (swap_plus_minus nm np m) vf i j =
         (if (i = m) = (j = m) then vector_rwg_value tp tm np nm vf i j
          else - vector_rwg_value tp tm np nm vf i j)"
    and "scalar_rwg_value (swap_plus_minus tp tm m) (swap_plus_minus tm tp m) sf i j =
         (if (i = m) = (j = m) then scalar_rwg_value tp tm sf i j
          else - scalar_rwg_value tp tm sf i j)"
  using assms
  by (simp_all add: vector_rwg_value_def scalar_rwg_value_def swap_plus_minus_def nth_list_update)

lemma basis_ok_swap:
  assumes "basis_ok tp tm np nm T" "m < length tp"
  shows "basis_ok (swap_plus_minus tp tm m) (swap_plus_minus tm tp m)
           (swap_plus_minus np nm m) (swap_plus_minus nm np m) T"
  using assms by (auto simp: basis_ok_def swap_plus_minus_def nth_list_update)

lemma voltage_result_swap:
  assumes "basis_ok tp tm np nm T" and m: "m < length tp" and i: "i < length tp"
  shows "voltage_result (swap_plus_minus tp tm m) (swap_plus_minus tm tp m)
           (swap_plus_minus np nm m) (swap_plus_minus nm np m) J ! i =
         (if i = m then - voltage_result tp tm np nm J ! i else voltage_result tp tm np nm J ! i)"
proof -
  have "length tm = length tp" "length np = length tp" "length nm = length tp"
    using assms(1) by (simp_all add: basis_ok_def)
  then show ?thesis
    using m i by (simp add: voltage_result_def swap_plus_minus_def nth_list_update)
qed

lemma rwg_result_elem:
  assumes "i < length tp" "j < length tp"
  shows "elem (fst (rwg_result tp tm np nm vf sf)) [int i, int j] = vector_rwg_value tp tm np nm vf i j"
    and "elem (snd (rwg_result tp tm np nm vf sf)) [int i, int j] = scalar_rwg_value tp tm sf i j"
  using rwg_result_getitem[OF assms, of tm np nm vf sf] by (simp_all add: elem_def)

lemma swap_length [simp]: "length (swap_plus_minus xs ys m) = length xs"
  by (simp add: swap_plus_minus_def)

section \<open>Facts about the concrete data\<close>

lemma upt2: "[0..<2] = [0, 1]"
  by (simp add: upt_rec)

lemma plate_T [simp]: "shape plate_triangles ! 0 = 2"
  by (simp add: plate_triangles_def)

lemma plate_mesh_ok: "mesh_ok plate_nodes plate_triangles"
  by (simp add: mesh_ok_def plate_nodes_def plate_triangles_def well_formed_def lt2 lt3
      elem_def getitem_def load_def)

lemma centroid_rule_ok: "quadrature_ok centroid_rule [1/2]"
  by (simp add: quadrature_ok_def centroid_rule_def well_formed_def)

lemma plate_basis_ok1: "basis_ok [0] [1] [1] [2] 2"
  by (simp add: basis_ok_def)

lemma plate_basis_ok2: "basis_ok [0, 1] [1, 0] [1, 2] [2, 1] 2"
  by (simp add: basis_ok_def lessThan_Suc)

lemma two_threads_ok: "env_ok two_threads 2 B"
  by (auto simp: env_ok_def two_threads_def upt2 lt2 atLeast0LessThan)

lemma one_thread_ok: "env_ok one_thread T B"
  by (simp add: env_ok_def one_thread_def atLeast0LessThan)

lemma plate_coords:
  "triangle_coords plate_nodes plate_triangles 0 = \<lparr>shape = [3, 3], buf = [0, 0, 0, 1, 0, 0, 1, 1, 0]\<rparr>"
  "triangle_coords plate_nodes plate_triangles (Suc 0) = \<lparr>shape = [3, 3], buf = [0, 0, 0, 1, 1, 0, 0, 1, 0]\<rparr>"
  by (simp_all add: triangle_coords_def coord_def upt_rec plate_nodes_def plate_triangles_def
      elem_def getitem_def load_def)

lemma plate_face_voltage:
  "face_voltage plate_nodes plate_triangles centroid_rule [1/2] [1, 0, 0] [0, 0, \<i>] 0 =
     Some [1/3, - (1/6), - (1/6)]"
  "face_voltage plate_nodes plate_triangles centroid_rule [1/2] [1, 0, 0] [0, 0, \<i>] (Suc 0) =
     Some [1/6, - (1/3), 1/6]"
  using face_voltage_closed[OF centroid_rule_ok, of "[1, 0, 0]" "[0, 0, \<i>]"]
  by (simp_all add: plate_coords integral_result_def weighted_sum_def point_term_def position_def
      sum3 centroid_rule_def elem_def getitem_def load_def)

lemma ramp_reads_ok: "rwg_reads_ok [0, 1] [1, 0] [1, 2] [2, 1] ramp_tensor ramp_matrix"
  by (simp add: rwg_reads_ok_def ramp_tensor_def ramp_matrix_def getitem_def load_def
      lessThan_Suc)

lemma padded_reads_ok:
  "view_reads_ok (list_view [1]) (list_view [0]) (list_view [0]) (list_view [3])
     padded_tensor zero_matrix"
  by (simp add: view_reads_ok_def list_view_def peek_def address_def load_def table_def
      padded_tensor_def zero_matrix_def)

lemma padded_reads_bad:
  "\<not> view_reads_ok (list_view [1]) (list_view [0]) (list_view [0]) (list_view [-1])
     padded_tensor zero_matrix"
  by (simp add: view_reads_ok_def list_view_def peek_def address_def load_def table_def
      padded_tensor_def zero_matrix_def)

lemma plate_geometry_overflow:
  "point_geometry_fp centroid_rule [1/2] (triangle_coords plate_nodes plate_triangles 0)
     [- 6000, 0, 0] 0
   = Some (Fin (1/2), [[Fin (2/3), Fin (1/3), Fin 0], [Fin (- (1/3)), Fin (1/3), Fin 0],
        [Fin (- (1/3)), Fin (- (2/3)), Fin 0]], (PosInf, NaN))"
  "point_geometry_fp centroid_rule [1/2] (triangle_coords plate_nodes plate_triangles (Suc 0))
     [- 6000, 0, 0] 0
   = Some (Fin (1/2), [[Fin (1/3), Fin (2/3), Fin 0], [Fin (- (2/3)), Fin (- (1/3)), Fin 0],
        [Fin (1/3), Fin (- (1/3)), Fin 0]], (PosInf, NaN))"
  by (simp_all add: point_geometry_fp_def plate_coords centroid_rule_def upt3
      getitem_def load_def dsub_def overflow_small dot3_fp cfin_def creal_fp_def
      cmul_def cmul_recover_def cadd_def cneg_def cexp_fp_def exp_overflows Let_def czero_def)

lemma plate_point_overflow:
  "source_integral_point_fp centroid_rule [1/2] (triangle_coords plate_nodes plate_triangles 0)
     [- 6000, 0, 0] [0, 0, 0] 0 [czero, czero, czero] = Some [(NaN, NaN), (NaN, NaN), (NaN, NaN)]"
  "source_integral_point_fp centroid_rule [1/2] (triangle_coords plate_nodes plate_triangles (Suc 0))
     [- 6000, 0, 0] [0, 0, 0] 0 [czero, czero, czero] = Some [(NaN, NaN), (NaN, NaN), (NaN, NaN)]"
  by (simp_all add: source_integral_point_fp_def plate_geometry_overflow upt3 dot3_fp
      load_def store_def cmul_inf_czero cmul_nan_czero cmul_nan_left cadd_nan_right)

lemma plate_face_overflow:
  "face_voltage_fp plate_nodes plate_triangles centroid_rule [1/2] [0, 0, 0] [- 6000, 0, 0] 0
     = Some [(NaN, NaN), (NaN, NaN), (NaN, NaN)]"
  "face_voltage_fp plate_nodes plate_triangles centroid_rule [1/2] [0, 0, 0] [- 6000, 0, 0] (Suc 0)
     = Some [(NaN, NaN), (NaN, NaN), (NaN, NaN)]"
proof -
  have n: "shape centroid_rule ! 0 = Suc 0" by (simp add: centroid_rule_def)
  show "face_voltage_fp plate_nodes plate_triangles centroid_rule [1/2] [0, 0, 0] [- 6000, 0, 0] 0
     = Some [(NaN, NaN), (NaN, NaN), (NaN, NaN)]"
    unfolding face_voltage_fp_def source_integral_plane_wave_fp_def Let_def n
    by (simp add: plate_point_overflow(1))
  show "face_voltage_fp plate_nodes plate_triangles centroid_rule [1/2] [0, 0, 0] [- 6000, 0, 0] (Suc 0)
     = Some [(NaN, NaN), (NaN, NaN), (NaN, NaN)]"
    unfolding face_voltage_fp_def source_integral_plane_wave_fp_def Let_def n
    by (simp add: plate_point_overflow(2))
qed

lemma plate_voltage_overflow:
  "voltage_plane_wave_fp one_thread plate_nodes plate_triangles [0] [1] [1] [2]
     centroid_rule [1/2] [0, 0, 0] [- 6000, 0, 0] = Some [(NaN, NaN)]"
proof -
  let ?body = "\<lambda>p. voltage_face_fp plate_nodes plate_triangles centroid_rule [1/2] [0, 0, 0]
                     [- 6000, 0, 0] 0 p"
  let ?n = "(NaN, NaN) :: cdbl"
  let ?s0 = "np_empty [Suc 0, 3, 3] (\<lambda>k. real k) :: real ndarray"
  let ?V0 = "\<lparr>shape = [2, 3], buf = [czero, czero, czero, czero, czero, czero]\<rparr>"
  let ?V1 = "\<lparr>shape = [2, 3], buf = [?n, ?n, ?n, czero, czero, czero]\<rparr>"
  let ?V2 = "\<lparr>shape = [2, 3], buf = [?n, ?n, ?n, ?n, ?n, ?n]\<rparr>"
  have z: "np_zeros_fp [2, 3] = ?V0"
    by (simp add: np_zeros_fp_def numeral_eq_Suc)
  obtain s1 where s1: "?body 0 (?s0, ?V0) = Some (s1, ?V1)"
    "shape s1 = [Suc 0, 3, 3]" "length (buf s1) = Suc 0 * 9"
    using voltage_face_fp_closed[OF plate_mesh_ok plate_T _ _ plate_face_overflow(1),
        of 0 "Suc 0" ?s0 ?V0]
    by (auto simp: np_empty_def)
  obtain s2 where s2: "?body (Suc 0) (s1, ?V1) = Some (s2, ?V2)"
    using voltage_face_fp_closed[OF plate_mesh_ok plate_T _ _ plate_face_overflow(2) s1(2,3),
        of 0 ?V1]
    by auto
  have b: "voltage_basis_fp [0] [1] [1] [2] ?V2 0 [czero] = Some [?n]"
    by (simp add: voltage_basis_fp_def load_def store_def getitem_def csub_def dsub_def)
  show ?thesis
    unfolding voltage_plane_wave_fp_def Let_def
    by (simp add: one_thread_def upt2 z s1(1) s2 b)
qed

lemma plate_geometry_finite:
  "geometry_finite centroid_rule [1/2] (triangle_coords plate_nodes plate_triangles 0)
     [0, 0, \<i>] 0"
  "geometry_finite centroid_rule [1/2] (triangle_coords plate_nodes plate_triangles (Suc 0))
     [0, 0, \<i>] 0"
  by (simp_all add: geometry_finite_def finite_point_def point_geometry_fp_def plate_coords
      centroid_rule_def upt3
      getitem_def load_def dsub_def overflow_small dot3_fp cfin_def creal_fp_def
      cmul_def cmul_recover_def cadd_def cneg_def cexp_fp_def Let_def czero_def)

section \<open>Claims\<close>

subsection \<open>C1: the integrator computes the weighted sum\<close>

text \<open>
  C1, as stated: the component \<open>I[a]\<close> is the sum over the quadrature points of
  \<open>(rho[a] \<cdot> e_r) * w\<close> with \<open>e_r = exp (- \<i> * (jk_inc \<cdot> r)) * e_inc\<close>. The code has no
  factor \<open>\<i>\<close> in the exponent: \<open>jk_inc\<close> is already the wavevector times \<open>\<i>\<close>. With one
  quadrature point at node 0 = (1, 0, 0), weight 1, \<open>jk_inc = (1, 0, 0)\<close> and
  \<open>e_inc = (1, 0, 0)\<close> the integrator returns \<open>I[1] = exp (- 1)\<close>, where the stated
  formula gives \<open>exp (- \<i>)\<close>.
\<close>

theorem source_integral_phase_counterexample:
  "source_integral_plane_wave \<lparr>shape = [1, 2], buf = [1, 0]\<rparr> [1]
       \<lparr>shape = [3, 3], buf = [1, 0, 0, 0, 0, 0, 0, 0, 0]\<rparr> [1, 0, 0] [1, 0, 0] [0, 0, 0]
     = Some [0, exp (- 1), exp (- 1)] \<and>
   weighted_sum (\<lambda>s. exp (- (\<i> * s))) \<lparr>shape = [1, 2], buf = [1, 0]\<rparr> [1]
       \<lparr>shape = [3, 3], buf = [1, 0, 0, 0, 0, 0, 0, 0, 0]\<rparr> [1, 0, 0] [1, 0, 0] 1
     = exp (- \<i>) \<and>
   exp (- 1) \<noteq> exp (- \<i>)"
proof -
  let ?x = "\<lparr>shape = [1, 2], buf = [1, 0::real]\<rparr>"
  let ?n = "\<lparr>shape = [3, 3], buf = [1, 0, 0, 0, 0, 0, 0, 0, 0::real]\<rparr>"
  have h: "quadrature_ok ?x [1]" "triangle_ok ?n"
    by (simp_all add: quadrature_ok_def triangle_ok_def well_formed_def)
  have r: "source_integral_plane_wave ?x [1] ?n [1, 0, 0] [1, 0, 0] [0, 0, 0] =
      Some [0, exp (- 1), exp (- 1)]"
    using source_integral_plane_wave_closed[OF h, of "[1, 0, 0]" "[1, 0, 0]" "[0, 0, 0]"]
    by (simp add: integral_result_def weighted_sum_def point_term_def position_def sum3 elem_def
        getitem_def load_def)
  have c: "weighted_sum (\<lambda>s. exp (- (\<i> * s))) ?x [1] ?n [1, 0, 0] [1, 0, 0] 1 = exp (- \<i>)"
    by (simp add: weighted_sum_def point_term_def position_def sum3 elem_def getitem_def load_def)
  have "norm (exp (- 1 :: complex)) = exp (- 1)" "norm (exp (- \<i>)) = 1"
    by (simp_all add: norm_exp_eq_Re)
  moreover have "exp (- 1 :: real) < 1" by simp
  ultimately have "exp (- 1 :: complex) \<noteq> exp (- \<i>)" by (metis less_irrefl)
  with r c show ?thesis by simp
qed

text \<open>
  C1, amended: for every quadrature rule, every triangle of three nodes and every pair of
  complex 3-vectors \<open>jk_inc\<close>, \<open>e_inc\<close>, the integrator returns a 3-vector whose component
  \<open>a\<close> is the sum over the quadrature points of \<open>(rho[a] \<cdot> e_r) * w\<close>, where \<open>r\<close> is the
  barycentric combination of the nodes, \<open>rho[a] = r - node[a]\<close> and
  \<open>e_r = exp (- (jk_inc \<cdot> r)) * e_inc\<close>.
\<close>

theorem source_integral_weighted_sum:
  assumes "quadrature_ok xi_eta weights" and "triangle_ok nodes_o"
    and "length jk_inc = 3" and "length e_inc = 3" and "length I = 3"
  shows "\<exists>J. source_integral_plane_wave xi_eta weights nodes_o jk_inc e_inc I = Some J \<and>
     length J = 3 \<and>
     (\<forall>a<3. J ! a = weighted_sum (\<lambda>s. exp (- s)) xi_eta weights nodes_o jk_inc e_inc a)"
  using source_integral_plane_wave_closed[OF assms] by (simp add: integral_result_nth)

text \<open>
  C1, witness: the centroid rule on the triangle (0,0,0), (1,0,0), (0,1,0) with
  \<open>jk_inc = (0, 0, \<i>)\<close> and \<open>e_inc = (1, 0, 0)\<close>.
\<close>

theorem source_integral_weighted_sum_witness:
  "\<exists>J. source_integral_plane_wave \<lparr>shape = [1, 2], buf = [1/3, 1/3]\<rparr> [1/2]
         \<lparr>shape = [3, 3], buf = [0, 0, 0, 1, 0, 0, 0, 1, 0]\<rparr> [0, 0, \<i>] [1, 0, 0] [0, 0, 0] = Some J \<and>
       J ! 0 = 1/6 \<and> J ! 1 = - (1/3) \<and> J ! 2 = 1/6"
proof -
  let ?x = "\<lparr>shape = [1, 2], buf = [1/3, 1/3::real]\<rparr>"
  let ?n = "\<lparr>shape = [3, 3], buf = [0, 0, 0, 1, 0, 0, 0, 1, 0::real]\<rparr>"
  have h: "quadrature_ok ?x [1/2]" "triangle_ok ?n"
    by (simp_all add: quadrature_ok_def triangle_ok_def well_formed_def)
  let ?y = "\<lparr>shape = [Suc 0, 2], buf = [1/3, 1/3::real]\<rparr>"
  have e: "weighted_sum (\<lambda>s. exp (- s)) ?y [1/2] ?n [0, 0, \<i>] [1, 0, 0] 0 = 1/6"
    "weighted_sum (\<lambda>s. exp (- s)) ?y [1/2] ?n [0, 0, \<i>] [1, 0, 0] (Suc 0) = - (1/3)"
    "weighted_sum (\<lambda>s. exp (- s)) ?y [1/2] ?n [0, 0, \<i>] [1, 0, 0] 2 = 1/6"
    by (simp_all add: weighted_sum_def point_term_def position_def sum3 elem_def getitem_def
        load_def)
  from source_integral_weighted_sum[OF h, of "[0, 0, \<i>]" "[1, 0, 0]" "[0, 0, 0]"]
  show ?thesis by (auto simp: e)
qed

subsection \<open>C2: the converter computes the signed combinations\<close>

text \<open>
  C2. For a basis index table and face tensors that cover every referenced index, the
  converter returns two matrices of shape \<open>(num_basis, num_basis)\<close> whose entries at
  \<open>(m, n)\<close> are the signed combinations
  \<open>vf[p+,q+,i+,j+] - vf[p+,q-,i+,j-] - vf[p-,q+,i-,j+] + vf[p-,q-,i-,j-]\<close> and
  \<open>- sf[p-,q+] + sf[p-,q-] + sf[p+,q+] - sf[p+,q-]\<close>.
\<close>

theorem triangle_face_to_rwg_signed_combination:
  assumes "tables_in_range tp tm np nm vf sf"
  shows "\<exists>VR SR. triangle_face_to_rwg mem_v mem_s tp tm np nm vf sf = Some (VR, SR) \<and>
     shape VR = [length tp, length tp] \<and> well_formed VR \<and>
     shape SR = [length tp, length tp] \<and> well_formed SR \<and>
     (\<forall>m < length tp. \<forall>n < length tp.
        getitem VR [int m, int n] =
          Some (elem vf [tp ! m, tp ! n, np ! m, np ! n] - elem vf [tp ! m, tm ! n, np ! m, nm ! n]
              - elem vf [tm ! m, tp ! n, nm ! m, np ! n] + elem vf [tm ! m, tm ! n, nm ! m, nm ! n]) \<and>
        getitem SR [int m, int n] =
          Some (- elem sf [tm ! m, tp ! n] + elem sf [tm ! m, tm ! n]
              + elem sf [tp ! m, tp ! n] - elem sf [tp ! m, tm ! n]))"
proof -
  have r: "triangle_face_to_rwg mem_v mem_s tp tm np nm vf sf = Some (rwg_result tp tm np nm vf sf)"
    by (rule triangle_face_to_rwg_closed) (rule tables_in_range_reads_ok[OF assms])
  obtain VR SR where p: "rwg_result tp tm np nm vf sf = (VR, SR)"
    by (cases "rwg_result tp tm np nm vf sf")
  have sh: "shape VR = [length tp, length tp]" "well_formed VR"
    "shape SR = [length tp, length tp]" "well_formed SR"
    using p by (auto simp: rwg_result_def well_formed_def)
  have "getitem VR [int m, int n] = Some (vector_rwg_value tp tm np nm vf m n) \<and>
        getitem SR [int m, int n] = Some (scalar_rwg_value tp tm sf m n)"
    if "m < length tp" "n < length tp" for m n
    using rwg_result_getitem[OF that, of tm np nm vf sf] p by simp
  then show ?thesis
    using r sh unfolding p vector_rwg_value_def scalar_rwg_value_def by simp
qed

text \<open>C2, witness: one basis function on two triangles.\<close>

theorem triangle_face_to_rwg_signed_combination_witness:
  "\<exists>VR SR. triangle_face_to_rwg (\<lambda>_. 0) (\<lambda>_. 0) [0] [1] [0] [0]
       \<lparr>shape = [2, 2, 2, 2], buf = [1, 0, 0, 0, 2, 0, 0, 0, 3, 0, 0, 0, 5, 0, 0, 0]\<rparr> \<lparr>shape = [2, 2], buf = [5, 6, 7, 9]\<rparr>
     = Some (VR, SR) \<and> shape VR = [1, 1] \<and> shape SR = [1, 1] \<and>
     getitem VR [0, 0] = Some 1 \<and> getitem SR [0, 0] = Some 1"
proof -
  let ?vf = "\<lparr>shape = [2, 2, 2, 2], buf = [1, 0, 0, 0, 2, 0, 0, 0, 3, 0, 0, 0, 5, 0, 0, 0::complex]\<rparr>"
  let ?sf = "\<lparr>shape = [2, 2], buf = [5, 6, 7, 9::complex]\<rparr>"
  have h: "tables_in_range [0] [1] [0] [0] ?vf ?sf"
    by (simp add: tables_in_range_def well_formed_def in_range_def)
  have e: "elem ?vf [0, 0, 0, 0] = 1" "elem ?vf [0, 1, 0, 0] = 2"
    "elem ?vf [1, 0, 0, 0] = 3" "elem ?vf [1, 1, 0, 0] = 5"
    "elem ?sf [0, 0] = 5" "elem ?sf [0, 1] = 6" "elem ?sf [1, 0] = 7" "elem ?sf [1, 1] = 9"
    by (simp_all add: elem_def getitem_def load_def)
  from triangle_face_to_rwg_signed_combination[OF h, of "\<lambda>_. 0" "\<lambda>_. 0"] show ?thesis
    by (auto simp: e)
qed

subsection \<open>C3: the assembler combines the face integrals\<close>

text \<open>
  C3. For a mesh, a basis index table with indices in range, a quadrature rule and a
  plane wave, the assembler returns a vector \<open>V\<close> of length \<open>num_basis\<close> with
  \<open>V[m] = V_face[tri_plus(m), node_plus(m)] - V_face[tri_minus(m), node_minus(m)]\<close>, where
  \<open>V_face[p, :]\<close> is the integrator's result for the node coordinates of triangle \<open>p\<close>.
  This holds for every thread count, thread assignment, iteration order and scratch
  content.
\<close>

theorem voltage_plane_wave_signed_difference:
  assumes "mesh_ok nodes triangle_nodes"
    and "basis_ok tp tm np nm (shape triangle_nodes ! 0)"
    and "quadrature_ok xi_eta weights" and "length e_inc = 3" and "length jk_inc = 3"
    and "env_ok env (shape triangle_nodes ! 0) (length tp)"
  shows "\<exists>V. voltage_plane_wave env nodes triangle_nodes tp tm np nm xi_eta weights e_inc jk_inc
            = Some V \<and> length V = length tp \<and>
     (\<forall>m < length tp. \<exists>Jp Jm.
        face_voltage nodes triangle_nodes xi_eta weights e_inc jk_inc (nat (tp ! m)) = Some Jp \<and>
        face_voltage nodes triangle_nodes xi_eta weights e_inc jk_inc (nat (tm ! m)) = Some Jm \<and>
        V ! m = Jp ! nat (np ! m) - Jm ! nat (nm ! m))"
proof -
  let ?J = "\<lambda>p. integral_result xi_eta weights (triangle_coords nodes triangle_nodes p) jk_inc e_inc"
  have "voltage_plane_wave env nodes triangle_nodes tp tm np nm xi_eta weights e_inc jk_inc =
          Some (voltage_result tp tm np nm ?J)"
    by (rule voltage_plane_wave_closed[OF assms(1,2,6) faces_return[OF assms(3,4,5)]])
  then show ?thesis
    by (simp add: voltage_result_nth face_voltage_closed[OF assms(3,4,5)])
qed

text \<open>
  C3, witness: the plate with its one basis function on the diagonal, two threads, the
  triangles run in reverse order.
\<close>

theorem voltage_plane_wave_signed_difference_witness:
  "\<exists>V. voltage_plane_wave two_threads plate_nodes plate_triangles [0] [1] [1] [2]
         centroid_rule [1/2] [1, 0, 0] [0, 0, \<i>] = Some V \<and>
       length V = 1 \<and> V ! 0 = - (1/3)"
  using voltage_plane_wave_signed_difference[of plate_nodes plate_triangles "[0]" "[1]" "[1]" "[2]"
      centroid_rule "[1/2]" "[1, 0, 0]" "[0, 0, \<i>]" two_threads]
    plate_mesh_ok plate_basis_ok1 centroid_rule_ok two_threads_ok[of 1] plate_face_voltage
  by auto

subsection \<open>C4: indices outside a tensor\<close>

text \<open>
  C4, as stated: an index outside the range of a tensor makes the converter raise an input
  error. It does not: with free-node index 3 on a \<open>2 \<times> 2 \<times> 3 \<times> 3\<close> tensor the reads stay
  inside the buffer, and the converter returns a result built from the cell at offset 12,
  which is the cell \<open>[0, 1, 1, 0]\<close>.
\<close>

theorem converter_out_of_range_counterexample:
  "\<not> in_range \<lparr>shape = [2, 2, 3, 3], buf = (replicate 36 (0::complex))[12 := 5]\<rparr> [0, 0, 3, 3] \<and>
   triangle_face_to_rwg (\<lambda>_. 0) (\<lambda>_. 0) [1] [0] [0] [3]
       \<lparr>shape = [2, 2, 3, 3], buf = (replicate 36 0)[12 := 5]\<rparr>
       \<lparr>shape = [2, 2], buf = [0, 0, 0, 0]\<rparr>
     = Some (\<lparr>shape = [1, 1], buf = [5]\<rparr>, \<lparr>shape = [1, 1], buf = [0]\<rparr>)"
proof -
  have "rwg_reads_ok [1] [0] [0] [3]
          \<lparr>shape = [2, 2, 3, 3], buf = (replicate 36 (0::complex))[12 := 5]\<rparr>
          \<lparr>shape = [2, 2], buf = [0, 0, 0, 0]\<rparr>"
    by (simp add: rwg_reads_ok_def getitem_def load_def)
  from triangle_face_to_rwg_closed[OF this] show ?thesis
    by (simp add: in_range_def rwg_result_def vector_rwg_value_def scalar_rwg_value_def
        elem_def getitem_def load_def)
qed

text \<open>
  C4, amended: the converter checks no index. Each read fetches the cell at the address
  that the index tuple has through the strides of the view, \<open>origin + i0 * stride0 + ...\<close>.
  When the address of every read lies inside the buffer viewed, which an index outside
  the range of the tensor can satisfy, the converter returns both matrices, each entry
  being the signed combination of the cells at those addresses. When the address of some
  read lies outside the buffer, the read has no defined behaviour and there is no result.
  On contiguous arrays the address is the row-major offset
  (lemma \<open>triangle_face_to_rwg_contiguous\<close>).
\<close>

theorem converter_reads_by_address:
  "(view_reads_ok tp tm np nm vf sf \<longrightarrow>
      (\<exists>VR SR. triangle_face_to_rwg_view mem_v mem_s tp tm np nm vf sf = Some (VR, SR) \<and>
         (\<forall>m < extent tp ! 0. \<forall>n < extent tp ! 0.
            getitem VR [int m, int n] = Some (vector_view_value tp tm np nm vf m n) \<and>
            getitem SR [int m, int n] = Some (scalar_view_value tp tm sf m n)))) \<and>
   (\<not> view_reads_ok tp tm np nm vf sf \<longrightarrow>
      triangle_face_to_rwg_view mem_v mem_s tp tm np nm vf sf = None)"
proof (intro conjI impI)
  let ?B = "extent tp ! 0"
  let ?vv = "vector_view_value tp tm np nm vf"
  let ?sv = "scalar_view_value tp tm sf"
  assume ok: "view_reads_ok tp tm np nm vf sf"
  have r: "triangle_face_to_rwg_view mem_v mem_s tp tm np nm vf sf = Some (view_result ?B ?vv ?sv)"
    by (rule triangle_face_to_rwg_view_closed) (rule ok)
  obtain VR SR where p: "view_result ?B ?vv ?sv = (VR, SR)"
    by (cases "view_result ?B ?vv ?sv")
  have "getitem VR [int m, int n] = Some (?vv m n) \<and> getitem SR [int m, int n] = Some (?sv m n)"
    if "m < ?B" "n < ?B" for m n
    using view_result_getitem[OF that, of ?vv ?sv] p by simp
  then show "\<exists>VR SR. triangle_face_to_rwg_view mem_v mem_s tp tm np nm vf sf = Some (VR, SR) \<and>
         (\<forall>m < ?B. \<forall>n < ?B.
            getitem VR [int m, int n] = Some (?vv m n) \<and>
            getitem SR [int m, int n] = Some (?sv m n))"
    using r unfolding p by simp
next
  assume "\<not> view_reads_ok tp tm np nm vf sf"
  then show "triangle_face_to_rwg_view mem_v mem_s tp tm np nm vf sf = None"
    by (rule triangle_face_to_rwg_view_fails)
qed

text \<open>
  C4, witness: the view \<^verbatim>\<open>a[:, :, :, :3]\<close> of strides 24, 12, 4 and 1. With free-node
  index 3 the read of \<open>[0, 0, 3, 3]\<close> lands on address 15, which holds 77, and not on the
  row-major offset 12, which holds 5; the entry returned is 77. With free-node index \<open>-1\<close>
  the read of \<open>[0, 0, -1, -1]\<close> has the address \<open>-5\<close>, before the buffer.
\<close>

theorem converter_reads_by_address_witness:
  "\<not> view_in_range padded_tensor [0, 0, 3, 3] \<and>
   peek padded_tensor [0, 0, 3, 3] = Some 77 \<and>
   (\<exists>VR SR. triangle_face_to_rwg_view (\<lambda>_. 0) (\<lambda>_. 0)
        (list_view [1]) (list_view [0]) (list_view [0]) (list_view [3])
        padded_tensor zero_matrix = Some (VR, SR) \<and>
      getitem VR [0, 0] = Some 77 \<and> getitem SR [0, 0] = Some 0) \<and>
   triangle_face_to_rwg_view (\<lambda>_. 0) (\<lambda>_. 0)
        (list_view [1]) (list_view [0]) (list_view [0]) (list_view [-1])
        padded_tensor zero_matrix = None"
proof -
  have a: "vector_view_value (list_view [1]) (list_view [0]) (list_view [0]) (list_view [3])
             padded_tensor 0 0 = 77"
    "scalar_view_value (list_view [1]) (list_view [0]) zero_matrix 0 0 = 0"
    by (simp_all add: vector_view_value_def scalar_view_value_def cell_def table_def
        list_view_def peek_def address_def load_def padded_tensor_def zero_matrix_def)
  have b: "\<not> view_in_range padded_tensor [0, 0, 3, 3]"
    "peek padded_tensor [0, 0, 3, 3] = Some 77"
    by (simp_all add: view_in_range_def peek_def address_def load_def padded_tensor_def)
  have e: "extent (list_view [1::int]) ! 0 = Suc 0"
    by (simp add: list_view_def)
  from converter_reads_by_address
         [of "list_view [1]" "list_view [0]" "list_view [0]" "list_view [3]"
             padded_tensor zero_matrix "\<lambda>_. 0" "\<lambda>_. 0"]
       converter_reads_by_address
         [of "list_view [1]" "list_view [0]" "list_view [0]" "list_view [-1]"
             padded_tensor zero_matrix "\<lambda>_. 0" "\<lambda>_. 0"]
       padded_reads_ok padded_reads_bad a b
  show ?thesis by (simp add: e)
qed

subsection \<open>C5: exchanging plus and minus of one basis function\<close>

text \<open>
  C5, as stated: exchanging the plus and minus data of basis function \<open>m\<close> negates every
  entry of \<open>vector_rwg\<close> and \<open>scalar_rwg\<close> in row \<open>m\<close> or column \<open>m\<close>. The diagonal entry
  \<open>[m, m]\<close> lies in both and is negated twice: with one basis function the single entry
  of each matrix is 1 before and after the exchange.
\<close>

theorem swap_plus_minus_diagonal_counterexample:
  "triangle_face_to_rwg (\<lambda>_. 0) (\<lambda>_. 0) [0] [1] [0] [0]
       \<lparr>shape = [2, 2, 2, 2], buf = [1, 0, 0, 0, 0, 0, 0, 0, 0, 0, 0, 0, 0, 0, 0, 0]\<rparr>
       \<lparr>shape = [2, 2], buf = [1, 0, 0, 0]\<rparr>
     = Some (\<lparr>shape = [1, 1], buf = [1]\<rparr>, \<lparr>shape = [1, 1], buf = [1]\<rparr>) \<and>
   triangle_face_to_rwg (\<lambda>_. 0) (\<lambda>_. 0)
       (swap_plus_minus [0] [1] 0) (swap_plus_minus [1] [0] 0)
       (swap_plus_minus [0] [0] 0) (swap_plus_minus [0] [0] 0)
       \<lparr>shape = [2, 2, 2, 2], buf = [1, 0, 0, 0, 0, 0, 0, 0, 0, 0, 0, 0, 0, 0, 0, 0]\<rparr>
       \<lparr>shape = [2, 2], buf = [1, 0, 0, 0]\<rparr>
     = Some (\<lparr>shape = [1, 1], buf = [1]\<rparr>, \<lparr>shape = [1, 1], buf = [1]\<rparr>) \<and>
   (1::complex) \<noteq> - 1"
proof -
  let ?vf = "\<lparr>shape = [2, 2, 2, 2], buf = [1, 0, 0, 0, 0, 0, 0, 0, 0, 0, 0, 0, 0, 0, 0, 0::complex]\<rparr>"
  let ?sf = "\<lparr>shape = [2, 2], buf = [1, 0, 0, 0::complex]\<rparr>"
  have a: "rwg_reads_ok [0] [1] [0] [0] ?vf ?sf" and b: "rwg_reads_ok [1] [0] [0] [0] ?vf ?sf"
    by (simp_all add: rwg_reads_ok_def getitem_def load_def)
  show ?thesis
    using triangle_face_to_rwg_closed[OF a, of "\<lambda>_. 0" "\<lambda>_. 0"]
      triangle_face_to_rwg_closed[OF b, of "\<lambda>_. 0" "\<lambda>_. 0"]
    by (simp add: swap_plus_minus_def rwg_result_def vector_rwg_value_def scalar_rwg_value_def
        elem_def getitem_def load_def)
qed

text \<open>
  C5, amended: exchanging the plus and minus data of basis function \<open>m\<close> negates every
  entry of \<open>vector_rwg\<close> and \<open>scalar_rwg\<close> that lies in row \<open>m\<close> or in column \<open>m\<close> but
  not in both, leaves the diagonal entry \<open>[m, m]\<close> and every entry outside row and column
  \<open>m\<close> unchanged, negates \<open>V[m]\<close> and leaves every other entry of \<open>V\<close> unchanged.
\<close>

theorem swap_plus_minus_off_diagonal:
  assumes "m < length tp"
  shows
   "(rwg_reads_ok tp tm np nm vf sf \<longrightarrow>
      (\<exists>VR SR VR' SR'.
         triangle_face_to_rwg mem_v mem_s tp tm np nm vf sf = Some (VR, SR) \<and>
         triangle_face_to_rwg mem_v mem_s (swap_plus_minus tp tm m) (swap_plus_minus tm tp m)
           (swap_plus_minus np nm m) (swap_plus_minus nm np m) vf sf = Some (VR', SR') \<and>
         (\<forall>i < length tp. \<forall>j < length tp.
            elem VR' [int i, int j] =
              (if (i = m) = (j = m) then elem VR [int i, int j] else - elem VR [int i, int j]) \<and>
            elem SR' [int i, int j] =
              (if (i = m) = (j = m) then elem SR [int i, int j] else - elem SR [int i, int j])))) \<and>
    (mesh_ok nodes triangle_nodes \<and> basis_ok tp tm np nm (shape triangle_nodes ! 0) \<and>
     quadrature_ok xi_eta weights \<and> length e_inc = 3 \<and> length jk_inc = 3 \<and>
     env_ok env (shape triangle_nodes ! 0) (length tp) \<longrightarrow>
      (\<exists>V V'.
         voltage_plane_wave env nodes triangle_nodes tp tm np nm xi_eta weights e_inc jk_inc
           = Some V \<and>
         voltage_plane_wave env nodes triangle_nodes (swap_plus_minus tp tm m)
           (swap_plus_minus tm tp m) (swap_plus_minus np nm m) (swap_plus_minus nm np m)
           xi_eta weights e_inc jk_inc = Some V' \<and>
         V' ! m = - V ! m \<and> (\<forall>i < length tp. i \<noteq> m \<longrightarrow> V' ! i = V ! i)))"
proof (intro conjI impI)
  let ?tp = "swap_plus_minus tp tm m" and ?tm = "swap_plus_minus tm tp m"
  let ?np = "swap_plus_minus np nm m" and ?nm = "swap_plus_minus nm np m"
  assume ok: "rwg_reads_ok tp tm np nm vf sf"
  have len: "length tp \<le> length tm" "length tp \<le> length np" "length tp \<le> length nm"
    using ok by (simp_all add: rwg_reads_ok_def)
  have r: "triangle_face_to_rwg mem_v mem_s tp tm np nm vf sf =
      Some (fst (rwg_result tp tm np nm vf sf), snd (rwg_result tp tm np nm vf sf))"
    by (simp add: triangle_face_to_rwg_closed[OF ok])
  have r': "triangle_face_to_rwg mem_v mem_s ?tp ?tm ?np ?nm vf sf =
      Some (fst (rwg_result ?tp ?tm ?np ?nm vf sf), snd (rwg_result ?tp ?tm ?np ?nm vf sf))"
    by (simp add: triangle_face_to_rwg_closed[OF rwg_reads_ok_swap[OF ok assms]])
  have "elem (fst (rwg_result ?tp ?tm ?np ?nm vf sf)) [int i, int j] =
          (if (i = m) = (j = m) then elem (fst (rwg_result tp tm np nm vf sf)) [int i, int j]
           else - elem (fst (rwg_result tp tm np nm vf sf)) [int i, int j]) \<and>
        elem (snd (rwg_result ?tp ?tm ?np ?nm vf sf)) [int i, int j] =
          (if (i = m) = (j = m) then elem (snd (rwg_result tp tm np nm vf sf)) [int i, int j]
           else - elem (snd (rwg_result tp tm np nm vf sf)) [int i, int j])"
    if "i < length tp" "j < length tp" for i j
    using that rwg_value_swap[OF len assms that, of vf] rwg_value_swap(2)[OF len assms that, of sf]
    by (simp add: rwg_result_elem)
  then show "\<exists>VR SR VR' SR'.
         triangle_face_to_rwg mem_v mem_s tp tm np nm vf sf = Some (VR, SR) \<and>
         triangle_face_to_rwg mem_v mem_s ?tp ?tm ?np ?nm vf sf = Some (VR', SR') \<and>
         (\<forall>i < length tp. \<forall>j < length tp.
            elem VR' [int i, int j] =
              (if (i = m) = (j = m) then elem VR [int i, int j] else - elem VR [int i, int j]) \<and>
            elem SR' [int i, int j] =
              (if (i = m) = (j = m) then elem SR [int i, int j] else - elem SR [int i, int j]))"
    unfolding r r' by blast
next
  let ?tp = "swap_plus_minus tp tm m" and ?tm = "swap_plus_minus tm tp m"
  let ?np = "swap_plus_minus np nm m" and ?nm = "swap_plus_minus nm np m"
  let ?T = "shape triangle_nodes ! 0"
  assume h: "mesh_ok nodes triangle_nodes \<and> basis_ok tp tm np nm ?T \<and>
     quadrature_ok xi_eta weights \<and> length e_inc = 3 \<and> length jk_inc = 3 \<and>
     env_ok env ?T (length tp)"
  let ?J = "\<lambda>p. integral_result xi_eta weights (triangle_coords nodes triangle_nodes p) jk_inc e_inc"
  have b: "basis_ok tp tm np nm ?T" using h by simp
  have f: "\<forall>p \<in> {..<?T}.
     face_voltage nodes triangle_nodes xi_eta weights e_inc jk_inc p = Some (?J p) \<and>
     length (?J p) = 3"
    by (rule faces_return) (use h in simp_all)
  have v: "voltage_plane_wave env nodes triangle_nodes tp tm np nm xi_eta weights e_inc jk_inc
          = Some (voltage_result tp tm np nm ?J)"
    by (rule voltage_plane_wave_closed[OF _ _ _ f]) (use h in simp_all)
  have v': "voltage_plane_wave env nodes triangle_nodes ?tp ?tm ?np ?nm xi_eta weights e_inc jk_inc
          = Some (voltage_result ?tp ?tm ?np ?nm ?J)"
    by (rule voltage_plane_wave_closed[OF _ basis_ok_swap[OF b assms] _ f]) (use h in simp_all)
  show "\<exists>V V'.
         voltage_plane_wave env nodes triangle_nodes tp tm np nm xi_eta weights e_inc jk_inc
           = Some V \<and>
         voltage_plane_wave env nodes triangle_nodes ?tp ?tm ?np ?nm xi_eta weights e_inc jk_inc
           = Some V' \<and>
         V' ! m = - V ! m \<and> (\<forall>i < length tp. i \<noteq> m \<longrightarrow> V' ! i = V ! i)"
    unfolding v v' using assms by (simp add: voltage_result_swap[OF b assms])
qed

text \<open>C5, witness: two basis functions on the plate, the first one exchanged.\<close>

theorem swap_plus_minus_off_diagonal_witness:
  "(\<exists>VR SR VR' SR'.
      triangle_face_to_rwg (\<lambda>_. 0) (\<lambda>_. 0) [0, 1] [1, 0] [1, 2] [2, 1]
        ramp_tensor ramp_matrix = Some (VR, SR) \<and>
      triangle_face_to_rwg (\<lambda>_. 0) (\<lambda>_. 0) [1, 1] [0, 0] [2, 2] [1, 1]
        ramp_tensor ramp_matrix = Some (VR', SR') \<and>
      elem VR' [0, 1] = - elem VR [0, 1] \<and> elem VR' [1, 0] = - elem VR [1, 0] \<and>
      elem VR' [0, 0] = elem VR [0, 0] \<and> elem VR' [1, 1] = elem VR [1, 1] \<and>
      elem SR' [0, 1] = - elem SR [0, 1] \<and> elem SR' [0, 0] = elem SR [0, 0]) \<and>
   (\<exists>V V'.
      voltage_plane_wave two_threads plate_nodes plate_triangles [0, 1] [1, 0] [1, 2] [2, 1]
        centroid_rule [1/2] [1, 0, 0] [0, 0, \<i>] = Some V \<and>
      voltage_plane_wave two_threads plate_nodes plate_triangles [1, 1] [0, 0] [2, 2] [1, 1]
        centroid_rule [1/2] [1, 0, 0] [0, 0, \<i>] = Some V' \<and>
      V' ! 0 = - V ! 0 \<and> V' ! 1 = V ! 1)"
proof -
  have m: "0 < length [0, 1::int]" by simp
  have s: "swap_plus_minus [0, 1] [1, 0] 0 = [1, 1]" "swap_plus_minus [1, 0] [0, 1] 0 = [0, 0]"
    "swap_plus_minus [1, 2] [2, 1] 0 = [2, 2]" "swap_plus_minus [2, 1] [1, 2] 0 = [1, 1]"
    by (simp_all add: swap_plus_minus_def)
  from swap_plus_minus_off_diagonal[OF m, of "[1, 0]" "[1, 2]" "[2, 1]" ramp_tensor ramp_matrix
      "\<lambda>_. 0" "\<lambda>_. 0" plate_nodes plate_triangles centroid_rule "[1/2]" "[1, 0, 0]" "[0, 0, \<i>]"
      two_threads]
    ramp_reads_ok plate_mesh_ok plate_basis_ok2 centroid_rule_ok
    two_threads_ok[of "Suc (Suc 0)"]
  show ?thesis
    unfolding s by (simp add: All_less_Suc numeral_2_eq_2) blast
qed

subsection \<open>C6: the excitation vector is linear in the field amplitude\<close>

text \<open>
  C6, as stated: with all other inputs fixed, \<open>V\<close> computed for \<open>e_inc1 + e_inc2\<close> is the
  componentwise sum of \<open>V\<close> for \<open>e_inc1\<close> and \<open>V\<close> for \<open>e_inc2\<close>, and \<open>V\<close> for the field
  \<open>(0, 0, 0)\<close> is exactly the zero vector for every mesh, basis table and wavevector. The
  second part fails in doubles. On the plate with \<open>jk_inc = (-6000, 0, 0)\<close> the exponents
  at the two centroids are 4000 and 2000: \<^verbatim>\<open>exp\<close> overflows, the phase factor is
  \<open>(+inf, NaN)\<close>, its product with the zero field is NaN, and the entry of \<open>V\<close> is NaN.
\<close>

theorem zero_field_overflow_counterexample:
  "mesh_ok plate_nodes plate_triangles \<and> basis_ok [0] [1] [1] [2] 2 \<and>
   quadrature_ok centroid_rule [1/2] \<and> env_ok one_thread 2 1 \<and>
   voltage_plane_wave_fp one_thread plate_nodes plate_triangles [0] [1] [1] [2]
     centroid_rule [1/2] [0, 0, 0] [- 6000, 0, 0] = Some [(NaN, NaN)] \<and>
   (NaN, NaN) \<noteq> czero"
  using plate_mesh_ok plate_basis_ok1 centroid_rule_ok one_thread_ok[of 2 1] plate_voltage_overflow
  by (simp add: czero_def)

text \<open>
  C6, amended: in exact arithmetic \<open>V\<close> computed for \<open>e_inc1 + e_inc2\<close> is the componentwise
  sum of \<open>V\<close> for \<open>e_inc1\<close> and \<open>V\<close> for \<open>e_inc2\<close>; and over doubles with overflow \<open>V\<close> for
  the field \<open>(0, 0, 0)\<close> is the zero vector whenever the phase factor and the vectors \<open>rho\<close>
  computed at every quadrature point of every triangle are finite.
\<close>

theorem voltage_additive_and_zero_when_finite:
  assumes "mesh_ok nodes triangle_nodes"
    and "basis_ok tp tm np nm (shape triangle_nodes ! 0)"
    and "quadrature_ok xi_eta weights"
    and "env_ok env (shape triangle_nodes ! 0) (length tp)"
    and "length e1 = 3" and "length e2 = 3" and "length jk_inc = 3"
  shows "(\<exists>V1 V2.
     voltage_plane_wave env nodes triangle_nodes tp tm np nm xi_eta weights e1 jk_inc = Some V1 \<and>
     voltage_plane_wave env nodes triangle_nodes tp tm np nm xi_eta weights e2 jk_inc = Some V2 \<and>
     voltage_plane_wave env nodes triangle_nodes tp tm np nm xi_eta weights (map2 (+) e1 e2) jk_inc
       = Some (map2 (+) V1 V2)) \<and>
    ((\<forall>p \<in> {..<shape triangle_nodes ! 0}. \<forall>k \<in> {..<length weights}.
        geometry_finite xi_eta weights (triangle_coords nodes triangle_nodes p) jk_inc k) \<longrightarrow>
     voltage_plane_wave_fp env nodes triangle_nodes tp tm np nm xi_eta weights [0, 0, 0] jk_inc
       = Some (replicate (length tp) czero))"
proof (intro conjI impI)
  let ?J = "\<lambda>e p. integral_result xi_eta weights (triangle_coords nodes triangle_nodes p) jk_inc e"
  have v: "voltage_plane_wave env nodes triangle_nodes tp tm np nm xi_eta weights e jk_inc =
          Some (voltage_result tp tm np nm (?J e))" if "length e = 3" for e
    by (rule voltage_plane_wave_closed[OF assms(1,2,4) faces_return[OF assms(3) that assms(7)]])
  have s: "length (map2 (+) e1 e2) = 3"
    using assms(5,6) by simp
  have "voltage_result tp tm np nm (?J (map2 (+) e1 e2)) =
      map2 (+) (voltage_result tp tm np nm (?J e1)) (voltage_result tp tm np nm (?J e2))"
    unfolding integral_result_add[OF assms(5,6)]
    by (rule voltage_result_add[OF assms(2)]) simp_all
  then show "\<exists>V1 V2.
     voltage_plane_wave env nodes triangle_nodes tp tm np nm xi_eta weights e1 jk_inc = Some V1 \<and>
     voltage_plane_wave env nodes triangle_nodes tp tm np nm xi_eta weights e2 jk_inc = Some V2 \<and>
     voltage_plane_wave env nodes triangle_nodes tp tm np nm xi_eta weights (map2 (+) e1 e2) jk_inc
       = Some (map2 (+) V1 V2)"
    using v[OF assms(5)] v[OF assms(6)] v[OF s] by simp
next
  assume "\<forall>p \<in> {..<shape triangle_nodes ! 0}. \<forall>k \<in> {..<length weights}.
        geometry_finite xi_eta weights (triangle_coords nodes triangle_nodes p) jk_inc k"
  then show "voltage_plane_wave_fp env nodes triangle_nodes tp tm np nm xi_eta weights [0, 0, 0]
        jk_inc = Some (replicate (length tp) czero)"
    by (rule voltage_plane_wave_fp_zero[OF assms(1,2,3,4)])
qed

text \<open>
  C6, witness: the plate under the fields \<open>(1, 0, 0)\<close> and \<open>(0, 1, 0)\<close> of a wave that
  travels along \<open>z\<close>, \<open>jk_inc = (0, 0, \<i>)\<close>: the phase factor is 1 at both centroids.
\<close>

theorem voltage_additive_and_zero_when_finite_witness:
  "(\<exists>V1 V2.
     voltage_plane_wave two_threads plate_nodes plate_triangles [0] [1] [1] [2]
       centroid_rule [1/2] [1, 0, 0] [0, 0, \<i>] = Some V1 \<and>
     voltage_plane_wave two_threads plate_nodes plate_triangles [0] [1] [1] [2]
       centroid_rule [1/2] [0, 1, 0] [0, 0, \<i>] = Some V2 \<and>
     voltage_plane_wave two_threads plate_nodes plate_triangles [0] [1] [1] [2]
       centroid_rule [1/2] (map2 (+) [1, 0, 0] [0, 1, 0]) [0, 0, \<i>] = Some (map2 (+) V1 V2)) \<and>
   voltage_plane_wave_fp two_threads plate_nodes plate_triangles [0] [1] [1] [2]
     centroid_rule [1/2] [0, 0, 0] [0, 0, \<i>] = Some [czero]"
  using voltage_additive_and_zero_when_finite
      [of plate_nodes plate_triangles "[0]" "[1]" "[1]" "[2]"
        centroid_rule "[1/2]" two_threads "[1, 0, 0]" "[0, 1, 0]" "[0, 0, \<i>]"]
    plate_mesh_ok plate_basis_ok1 centroid_rule_ok two_threads_ok[of 1] plate_geometry_finite
  by (simp add: lt2)

subsection \<open>C7: the complex exponential\<close>


subsection \<open>C8: every iteration writes its own cells\<close>

text \<open>
  C8. Iteration \<open>p\<close> of the loop over triangles, run by thread \<open>t\<close>, changes no cell of
  \<open>V_face\<close> outside row \<open>p\<close> and no cell of the scratch block outside slot \<open>t\<close>, and
  what it leaves in row \<open>p\<close> and slot \<open>t\<close> is the same whatever both buffers held
  before: it reads no cell that another iteration writes. Iteration \<open>m\<close> of the loop over
  basis functions changes no entry of \<open>V\<close> but \<open>V[m]\<close>, and the value of \<open>V[m]\<close> does
  not depend on what \<open>V\<close> held.
\<close>

theorem iterations_write_own_cells:
  assumes "mesh_ok nodes triangle_nodes" and "shape triangle_nodes ! 0 = T"
    and "quadrature_ok xi_eta weights" and "length e_inc = 3" and "length jk_inc = 3"
    and "basis_ok tp tm np nm T"
    and "p < T" and "t < n" and "m < length tp"
    and "shape nodes_p = [n, 3, 3]" and "length (buf nodes_p) = n * 9"
    and "shape V_face = [T, 3]" and "length (buf V_face) = T * 3"
    and "length V = length tp"
  shows
   "(\<exists>nodes_p' V_face'.
       voltage_face nodes triangle_nodes xi_eta weights e_inc jk_inc t p (nodes_p, V_face)
         = Some (nodes_p', V_face') \<and>
       length (buf V_face') = T * 3 \<and> length (buf nodes_p') = n * 9 \<and>
       (\<forall>i < T * 3. i div 3 \<noteq> p \<longrightarrow> buf V_face' ! i = buf V_face ! i) \<and>
       (\<forall>k < n * 9. k div 9 \<noteq> t \<longrightarrow> buf nodes_p' ! k = buf nodes_p ! k) \<and>
       (\<forall>nodes_q V_q.
          shape nodes_q = [n, 3, 3] \<and> length (buf nodes_q) = n * 9 \<and>
          shape V_q = [T, 3] \<and> length (buf V_q) = T * 3 \<longrightarrow>
          (\<exists>nodes_q' V_q'.
             voltage_face nodes triangle_nodes xi_eta weights e_inc jk_inc t p (nodes_q, V_q)
               = Some (nodes_q', V_q') \<and>
             (\<forall>a < 3. buf V_q' ! (p * 3 + a) = buf V_face' ! (p * 3 + a)) \<and>
             (\<forall>c < 9. buf nodes_q' ! (t * 9 + c) = buf nodes_p' ! (t * 9 + c))))) \<and>
    (\<exists>V'. voltage_basis tp tm np nm V_face m V = Some V' \<and> length V' = length V \<and>
       (\<forall>i < length tp. i \<noteq> m \<longrightarrow> V' ! i = V ! i) \<and>
       (\<forall>W. length W = length tp \<longrightarrow>
          (\<exists>W'. voltage_basis tp tm np nm V_face m W = Some W' \<and> W' ! m = V' ! m)))"
proof (rule conjI)
  let ?J = "integral_result xi_eta weights (triangle_coords nodes triangle_nodes p) jk_inc e_inc"
  have fv: "face_voltage nodes triangle_nodes xi_eta weights e_inc jk_inc p = Some ?J"
    by (rule face_voltage_closed[OF assms(3,4,5)])
  have J: "length ?J = 3" by simp
  note p = \<open>p < T\<close> and t = \<open>t < n\<close>
  have run: "\<exists>s'. voltage_face nodes triangle_nodes xi_eta weights e_inc jk_inc t p (a, b) =
           Some (s', b\<lparr>buf := take (p * 3) (buf b) @ ?J @ drop (p * 3 + 3) (buf b)\<rparr>) \<and>
           gather_inv nodes triangle_nodes t p a ({..<3} \<times> {..<3}) s'"
    if "shape a = [n, 3, 3]" "length (buf a) = n * 9" "shape b = [T, 3]" "length (buf b) = T * 3"
    for a b
    by (rule voltage_face_closed[OF assms(1,2) p t fv that])
  have slot: "buf s ! (t * 9 + c) = coord nodes triangle_nodes p (c div 3) (c mod 3)"
    if "gather_inv nodes triangle_nodes t p a ({..<3} \<times> {..<3}) s" "c < 9" for a s c
  proof -
    have mem: "(c div 3, c mod 3) \<in> {..<3} \<times> {..<3}" using that(2) by simp
    have "\<forall>(m, q) \<in> {..<3} \<times> {..<3}.
            buf s ! (t * 9 + m * 3 + q) = coord nodes triangle_nodes p m q"
      using that(1) by (simp add: gather_inv_def)
    from bspec[OF this mem] show ?thesis by (simp add: add.assoc)
  qed
  obtain s' where r: "voltage_face nodes triangle_nodes xi_eta weights e_inc jk_inc t p
        (nodes_p, V_face) =
      Some (s', V_face\<lparr>buf := take (p * 3) (buf V_face) @ ?J @ drop (p * 3 + 3) (buf V_face)\<rparr>)"
    and gi: "gather_inv nodes triangle_nodes t p nodes_p ({..<3} \<times> {..<3}) s'"
    using run[OF assms(10,11,12,13)] by blast
  let ?V' = "V_face\<lparr>buf := take (p * 3) (buf V_face) @ ?J @ drop (p * 3 + 3) (buf V_face)\<rparr>"
  have l1: "length (buf ?V') = T * 3"
    using write_row(1)[OF assms(13) p J] by simp
  have l2: "length (buf s') = n * 9" using gi assms(11) by (simp add: gather_inv_def)
  have f1: "buf ?V' ! i = buf V_face ! i" if "i < T * 3" "i div 3 \<noteq> p" for i
  proof -
    have "i div 3 < T" using that(1) by (simp add: less_mult_imp_div_less)
    from write_row(3)[OF assms(13) p J that(2) this, of "i mod 3"] show ?thesis by simp
  qed
  have f2: "buf s' ! k = buf nodes_p ! k" if "k div 9 \<noteq> t" for k
  proof -
    have "k < t * 9 \<or> t * 9 + 9 \<le> k" using that by arith
    then show ?thesis using gi by (auto simp: gather_inv_def)
  qed
  have ind: "\<exists>nodes_q' V_q'.
             voltage_face nodes triangle_nodes xi_eta weights e_inc jk_inc t p (nodes_q, V_q)
               = Some (nodes_q', V_q') \<and>
             (\<forall>a < 3. buf V_q' ! (p * 3 + a) = buf ?V' ! (p * 3 + a)) \<and>
             (\<forall>c < 9. buf nodes_q' ! (t * 9 + c) = buf s' ! (t * 9 + c))"
    if q: "shape nodes_q = [n, 3, 3] \<and> length (buf nodes_q) = n * 9 \<and>
          shape V_q = [T, 3] \<and> length (buf V_q) = T * 3" for nodes_q V_q
  proof -
    have q': "shape nodes_q = [n, 3, 3]" "length (buf nodes_q) = n * 9"
      "shape V_q = [T, 3]" "length (buf V_q) = T * 3" using q by simp_all
    obtain sq where rq: "voltage_face nodes triangle_nodes xi_eta weights e_inc jk_inc t p
          (nodes_q, V_q) =
        Some (sq, V_q\<lparr>buf := take (p * 3) (buf V_q) @ ?J @ drop (p * 3 + 3) (buf V_q)\<rparr>)"
      and gq: "gather_inv nodes triangle_nodes t p nodes_q ({..<3} \<times> {..<3}) sq"
      using run[OF q'] by blast
    have "buf (V_q\<lparr>buf := take (p * 3) (buf V_q) @ ?J @ drop (p * 3 + 3) (buf V_q)\<rparr>) ! (p * 3 + a)
        = buf ?V' ! (p * 3 + a)" if "a < 3" for a
      using write_row(2)[OF q'(4) p J that] write_row(2)[OF assms(13) p J that] by simp
    moreover have "buf sq ! (t * 9 + c) = buf s' ! (t * 9 + c)" if "c < 9" for c
      using slot[OF gq that] slot[OF gi that] by simp
    ultimately show ?thesis using rq by simp
  qed
  show "\<exists>nodes_p' V_face'.
       voltage_face nodes triangle_nodes xi_eta weights e_inc jk_inc t p (nodes_p, V_face)
         = Some (nodes_p', V_face') \<and>
       length (buf V_face') = T * 3 \<and> length (buf nodes_p') = n * 9 \<and>
       (\<forall>i < T * 3. i div 3 \<noteq> p \<longrightarrow> buf V_face' ! i = buf V_face ! i) \<and>
       (\<forall>k < n * 9. k div 9 \<noteq> t \<longrightarrow> buf nodes_p' ! k = buf nodes_p ! k) \<and>
       (\<forall>nodes_q V_q.
          shape nodes_q = [n, 3, 3] \<and> length (buf nodes_q) = n * 9 \<and>
          shape V_q = [T, 3] \<and> length (buf V_q) = T * 3 \<longrightarrow>
          (\<exists>nodes_q' V_q'.
             voltage_face nodes triangle_nodes xi_eta weights e_inc jk_inc t p (nodes_q, V_q)
               = Some (nodes_q', V_q') \<and>
             (\<forall>a < 3. buf V_q' ! (p * 3 + a) = buf V_face' ! (p * 3 + a)) \<and>
             (\<forall>c < 9. buf nodes_q' ! (t * 9 + c) = buf nodes_p' ! (t * 9 + c))))"
    using r l1 l2 f1 f2 ind by blast
next
  note m = \<open>m < length tp\<close>
  have s: "voltage_basis tp tm np nm V_face m W =
     Some (W[m := elem V_face [tp ! m, np ! m] - elem V_face [tm ! m, nm ! m]])"
    if "length W = length tp" for W
    by (rule voltage_basis_closed[OF assms(6) m that assms(12,13)])
  show "\<exists>V'. voltage_basis tp tm np nm V_face m V = Some V' \<and> length V' = length V \<and>
       (\<forall>i < length tp. i \<noteq> m \<longrightarrow> V' ! i = V ! i) \<and>
       (\<forall>W. length W = length tp \<longrightarrow>
          (\<exists>W'. voltage_basis tp tm np nm V_face m W = Some W' \<and> W' ! m = V' ! m))"
    unfolding s[OF assms(14)] using m assms(14) by (simp add: s)
qed

text \<open>
  C8, witness: triangle 1 of the plate on thread 1 leaves row 0 of \<open>V_face\<close> and slot 0
  of the scratch block as they were; basis function 0 leaves \<open>V[1]\<close> as it was.
\<close>

theorem iterations_write_own_cells_witness:
  "(\<exists>nodes_p' V_face'.
      voltage_face plate_nodes plate_triangles centroid_rule [1/2] [1, 0, 0] [0, 0, \<i>] 1 1
        (np_empty [2, 3, 3] (\<lambda>_. 7), np_zeros [2, 3]) = Some (nodes_p', V_face') \<and>
      buf V_face' ! 0 = 0 \<and> buf V_face' ! 2 = 0 \<and> buf nodes_p' ! 0 = 7 \<and> buf nodes_p' ! 8 = 7) \<and>
   (\<exists>V'. voltage_basis [0, 1] [1, 0] [1, 2] [2, 1] (np_zeros [2, 3]) 0 [5, 6] = Some V' \<and>
      V' ! 1 = 6)"
proof -
  have h: "length [1, 0, 0::complex] = 3" "length [0, 0, \<i>] = 3" "(1::nat) < 2"
    "0 < length [0, 1::int]"
    "shape (np_empty [2, 3, 3] (\<lambda>_. 7::real)) = [2, 3, 3]"
    "length (buf (np_empty [2, 3, 3] (\<lambda>_. 7::real))) = 2 * 9"
    "shape (np_zeros [2, 3] :: complex ndarray) = [2, 3]"
    "length (buf (np_zeros [2, 3] :: complex ndarray)) = 2 * 3"
    "length [5, 6::complex] = length [0, 1::int]"
    by (simp_all add: np_empty_def np_zeros_def)
  from iterations_write_own_cells[OF plate_mesh_ok plate_T centroid_rule_ok h(1,2)
      plate_basis_ok2 h(3,3,4,5,6,7,8,9)]
  obtain nodes_p' V_face' V' where
    r: "voltage_face plate_nodes plate_triangles centroid_rule [1/2] [1, 0, 0] [0, 0, \<i>] 1 1
        (np_empty [2, 3, 3] (\<lambda>_. 7), np_zeros [2, 3]) = Some (nodes_p', V_face')"
    and f1: "\<forall>i < 2 * 3. i div 3 \<noteq> 1 \<longrightarrow>
        buf V_face' ! i = buf (np_zeros [2, 3] :: complex ndarray) ! i"
    and f2: "\<forall>k < 2 * 9. k div 9 \<noteq> 1 \<longrightarrow>
        buf nodes_p' ! k = buf (np_empty [2, 3, 3] (\<lambda>_. 7::real)) ! k"
    and b: "voltage_basis [0, 1] [1, 0] [1, 2] [2, 1] (np_zeros [2, 3]) 0 [5, 6] = Some V'"
    and f3: "\<forall>i < length [0, 1::int]. i \<noteq> 0 \<longrightarrow> V' ! i = [5, 6] ! i"
    by blast
  have "buf V_face' ! 0 = 0" "buf V_face' ! 2 = 0"
    using f1[rule_format, of 0] f1[rule_format, of 2] by (simp_all add: np_zeros_def)
  moreover have "buf nodes_p' ! 0 = 7" "buf nodes_p' ! 8 = 7"
    using f2[rule_format, of 0] f2[rule_format, of 8] by (simp_all add: np_empty_def)
  moreover have "V' ! 1 = 6" using f3[rule_format, of 1] by simp
  ultimately show ?thesis using r b by simp
qed

subsection \<open>C9: both operations are deterministic\<close>

text \<open>
  C9. The result of \<^verbatim>\<open>triangle_face_to_rwg\<close> does not depend on the memory \<^verbatim>\<open>np.empty\<close>
  hands out, and the result of \<^verbatim>\<open>voltage_plane_wave\<close> does not depend on the thread
  count, the thread assignment, the order of the iterations or the content of the scratch
  block: two runs on equal arguments return equal results.
\<close>

theorem deterministic_results:
  "(rwg_reads_ok tp tm np nm vf sf \<longrightarrow>
      (\<exists>R. triangle_face_to_rwg mem_v mem_s tp tm np nm vf sf = Some R \<and>
           triangle_face_to_rwg mem_v' mem_s' tp tm np nm vf sf = Some R)) \<and>
   (mesh_ok nodes triangle_nodes \<and> basis_ok bp bm cp cm (shape triangle_nodes ! 0) \<and>
    quadrature_ok xi_eta weights \<and> length e_inc = 3 \<and> length jk_inc = 3 \<and>
    env_ok env (shape triangle_nodes ! 0) (length bp) \<and>
    env_ok env' (shape triangle_nodes ! 0) (length bp) \<longrightarrow>
      (\<exists>V. voltage_plane_wave env nodes triangle_nodes bp bm cp cm xi_eta weights e_inc jk_inc
              = Some V \<and>
           voltage_plane_wave env' nodes triangle_nodes bp bm cp cm xi_eta weights e_inc jk_inc
              = Some V))"
proof (intro conjI impI)
  assume "rwg_reads_ok tp tm np nm vf sf"
  then show "\<exists>R. triangle_face_to_rwg mem_v mem_s tp tm np nm vf sf = Some R \<and>
           triangle_face_to_rwg mem_v' mem_s' tp tm np nm vf sf = Some R"
    by (simp add: triangle_face_to_rwg_closed)
next
  assume h: "mesh_ok nodes triangle_nodes \<and> basis_ok bp bm cp cm (shape triangle_nodes ! 0) \<and>
    quadrature_ok xi_eta weights \<and> length e_inc = 3 \<and> length jk_inc = 3 \<and>
    env_ok env (shape triangle_nodes ! 0) (length bp) \<and>
    env_ok env' (shape triangle_nodes ! 0) (length bp)"
  let ?J = "\<lambda>p. integral_result xi_eta weights (triangle_coords nodes triangle_nodes p) jk_inc e_inc"
  have f: "\<forall>p \<in> {..<shape triangle_nodes ! 0}.
     face_voltage nodes triangle_nodes xi_eta weights e_inc jk_inc p = Some (?J p) \<and>
     length (?J p) = 3"
    by (rule faces_return) (use h in simp_all)
  have "voltage_plane_wave env nodes triangle_nodes bp bm cp cm xi_eta weights e_inc jk_inc
          = Some (voltage_result bp bm cp cm ?J)"
    by (rule voltage_plane_wave_closed[OF _ _ _ f]) (use h in simp_all)
  moreover have "voltage_plane_wave env' nodes triangle_nodes bp bm cp cm xi_eta weights e_inc jk_inc
          = Some (voltage_result bp bm cp cm ?J)"
    by (rule voltage_plane_wave_closed[OF _ _ _ f]) (use h in simp_all)
  ultimately show "\<exists>V.
      voltage_plane_wave env nodes triangle_nodes bp bm cp cm xi_eta weights e_inc jk_inc = Some V \<and>
      voltage_plane_wave env' nodes triangle_nodes bp bm cp cm xi_eta weights e_inc jk_inc = Some V"
    by simp
qed

text \<open>
  C9, witness: two allocations with different content, and a run on two threads in
  reverse order against a run on one thread in order.
\<close>

theorem deterministic_results_witness:
  "(\<exists>R. triangle_face_to_rwg (\<lambda>_. 0) (\<lambda>_. 0) [0, 1] [1, 0] [1, 2] [2, 1]
           ramp_tensor ramp_matrix = Some R \<and>
        triangle_face_to_rwg of_nat (\<lambda>_. 1) [0, 1] [1, 0] [1, 2] [2, 1]
           ramp_tensor ramp_matrix = Some R) \<and>
   (\<exists>V. voltage_plane_wave two_threads plate_nodes plate_triangles [0, 1] [1, 0] [1, 2] [2, 1]
           centroid_rule [1/2] [1, 0, 0] [0, 0, \<i>] = Some V \<and>
        voltage_plane_wave one_thread plate_nodes plate_triangles [0, 1] [1, 0] [1, 2] [2, 1]
           centroid_rule [1/2] [1, 0, 0] [0, 0, \<i>] = Some V)"
  using deterministic_results[of "[0, 1]" "[1, 0]" "[1, 2]" "[2, 1]" ramp_tensor ramp_matrix
      "\<lambda>_. 0" "\<lambda>_. 0" of_nat "\<lambda>_. 1" plate_nodes plate_triangles
      "[0, 1]" "[1, 0]" "[1, 2]" "[2, 1]" centroid_rule "[1/2]" "[1, 0, 0]" "[0, 0, \<i>]"
      two_threads one_thread]
    ramp_reads_ok plate_mesh_ok plate_basis_ok2 centroid_rule_ok
    two_threads_ok[of "Suc (Suc 0)"] one_thread_ok[of 2 "Suc (Suc 0)"]
  by simp

subsection \<open>C10: an empty quadrature rule\<close>

text \<open>
  C10. With zero quadrature points the integrator returns \<open>(0, 0, 0)\<close> whatever the
  triangle, \<open>jk_inc\<close> and \<open>e_inc\<close> are (it reads none of them), and
  \<^verbatim>\<open>voltage_plane_wave\<close> returns the zero vector.
\<close>

theorem empty_quadrature_zero:
  assumes "shape xi_eta ! 0 = 0"
  shows "source_integral_plane_wave xi_eta weights nodes_o jk_inc e_inc [i0, i1, i2]
           = Some [0, 0, 0] \<and>
     (mesh_ok nodes triangle_nodes \<and> basis_ok tp tm np nm (shape triangle_nodes ! 0) \<and>
      env_ok env (shape triangle_nodes ! 0) (length tp) \<longrightarrow>
      voltage_plane_wave env nodes triangle_nodes tp tm np nm xi_eta weights e_inc jk_inc
        = Some (replicate (length tp) 0))"
proof -
  have i: "source_integral_plane_wave xi_eta weights n jk_inc e_inc [j0, j1, j2] = Some [0, 0, 0]"
    for n j0 j1 j2
    by (simp add: source_integral_plane_wave_def assms replicate3)
  have "voltage_plane_wave env nodes triangle_nodes tp tm np nm xi_eta weights e_inc jk_inc
        = Some (replicate (length tp) 0)"
    if h: "mesh_ok nodes triangle_nodes" "basis_ok tp tm np nm (shape triangle_nodes ! 0)"
      "env_ok env (shape triangle_nodes ! 0) (length tp)"
  proof -
    have "\<forall>p \<in> {..<shape triangle_nodes ! 0}.
        face_voltage nodes triangle_nodes xi_eta weights e_inc jk_inc p = Some [0, 0, 0] \<and>
        length [0, 0, 0::complex] = 3"
      by (simp add: face_voltage_def i)
    from voltage_plane_wave_closed[OF h this] show ?thesis
      by (simp add: voltage_result_zero[OF h(2)])
  qed
  then show ?thesis using i by blast
qed

text \<open>C10, witness: the plate with an empty rule and empty field vectors.\<close>

theorem empty_quadrature_zero_witness:
  "source_integral_plane_wave empty_rule [] plate_nodes [] [] [5, 6, 7] = Some [0, 0, 0] \<and>
   voltage_plane_wave two_threads plate_nodes plate_triangles [0] [1] [1] [2]
     empty_rule [] [] [] = Some [0]"
  using empty_quadrature_zero[of empty_rule "[]" plate_nodes "[]" "[]" 5 6 7
      plate_nodes plate_triangles "[0]" "[1]" "[1]" "[2]" two_threads]
    plate_mesh_ok plate_basis_ok1 two_threads_ok[of 1]
  by (simp add: empty_rule_def)

end
